theory Spec2Isabelle
  imports Complex_Main
begin

section \<open>Strings\<close>

text \<open>
  The two programs of the repository, \<^verbatim>\<open>ollamadocprocessor.py\<close> (command line) and
  \<^verbatim>\<open>gui_ollamadocprocessor.py\<close> (Tk front end), share their text functions word for word:
  \<^verbatim>\<open>chunk_text\<close>, \<^verbatim>\<open>process_text_with_ollama\<close>, \<^verbatim>\<open>extract_text_from_file\<close> and the two
  extractors. They are embedded once. The two drivers differ and are embedded separately.

  A Python \<^verbatim>\<open>str\<close> is a sequence of code points. Here a string is a \<^typ>\<open>string\<close> whose
  characters are read as the code points below 256 (Latin-1). \<open>isspace\<close> is
  \<^verbatim>\<open>str.isspace\<close> on that range: the characters 9..13, 28..32, 133 and 160. The same
  test decides what \<^verbatim>\<open>str.split()\<close>, \<^verbatim>\<open>str.strip()\<close> and the whitespace class of a
  \<^verbatim>\<open>str\<close> regular expression treat as whitespace.

  \<^item> \<open>str_split\<close> is \<^verbatim>\<open>text.split()\<close>: skip whitespace, take the longest run of
    other characters as a word, repeat.
  \<^item> \<open>str_join\<close> is \<^verbatim>\<open>sep.join(words)\<close>.
  \<^item> \<open>re_sub_ws\<close> is \<^verbatim>\<open>re.sub\<close> with the pattern "one or more whitespace
    characters" and the replacement \<^verbatim>\<open>' '\<close>: scanning from the left, every maximal run
    of whitespace is replaced by one space.
  \<^item> \<open>str_strip\<close> is \<^verbatim>\<open>text.strip()\<close>.
  \<^item> \<open>normalize_whitespace\<close> is the expression of line 141 of the command line
    program (line 242 of the front end): that substitution followed by \<^verbatim>\<open>.strip()\<close>.
\<close>

definition isspace :: "char \<Rightarrow> bool" where
  "isspace c =
     (let n = (of_char c :: nat)
      in (9 \<le> n \<and> n \<le> 13) \<or> (28 \<le> n \<and> n \<le> 32) \<or> n = 133 \<or> n = 160)"

function str_split :: "string \<Rightarrow> string list" where
  "str_split s =
     (let s1 = dropWhile isspace s
      in if s1 = [] then []
         else takeWhile (\<lambda>c. \<not> isspace c) s1 # str_split (dropWhile (\<lambda>c. \<not> isspace c) s1))"
  by pat_completeness auto
termination
proof (relation "measure length")
  show "wf (measure length)" by simp
next
  fix s s1 :: string
  assume s1: "s1 = dropWhile isspace s" and ne: "s1 \<noteq> []"
  from ne obtain c r where c: "s1 = c # r" by (cases s1) auto
  with s1 have "dropWhile isspace s = c # r" by simp
  then have "\<not> isspace c" by (simp add: dropWhile_eq_Cons_conv)
  then have "dropWhile (\<lambda>c. \<not> isspace c) s1 = dropWhile (\<lambda>c. \<not> isspace c) r"
    using c by simp
  moreover have "length (dropWhile (\<lambda>c. \<not> isspace c) r) \<le> length r"
    by (rule length_dropWhile_le)
  moreover have "length s1 \<le> length s" unfolding s1 by (rule length_dropWhile_le)
  ultimately show "(dropWhile (\<lambda>c. \<not> isspace c) s1, s) \<in> measure length"
    using c by simp
qed

fun str_join :: "string \<Rightarrow> string list \<Rightarrow> string" where
  "str_join sep [] = []"
| "str_join sep [x] = x"
| "str_join sep (x # y # ys) = x @ sep @ str_join sep (y # ys)"

function re_sub_ws :: "string \<Rightarrow> string" where
  "re_sub_ws [] = []"
| "re_sub_ws (c # cs) =
     (if isspace c then CHR '' '' # re_sub_ws (dropWhile isspace cs)
      else c # re_sub_ws cs)"
  by pat_completeness auto
termination
  by (relation "measure length") (auto simp: length_dropWhile_le less_Suc_eq_le)

definition str_lstrip :: "string \<Rightarrow> string" where
  "str_lstrip s = dropWhile isspace s"

definition str_rstrip :: "string \<Rightarrow> string" where
  "str_rstrip s = rev (dropWhile isspace (rev s))"

definition str_strip :: "string \<Rightarrow> string" where
  "str_strip s = str_rstrip (str_lstrip s)"

definition normalize_whitespace :: "string \<Rightarrow> string" where
  "normalize_whitespace text = str_strip (re_sub_ws text)"

section \<open>The chunker\<close>

text \<open>
  \<^verbatim>\<open>chunk_text(text, max_words)\<close> is a generator; its loop is \<open>chunk_loop\<close>, which
  returns the chunks in the order they are yielded. \<open>current_chunk\<close> and
  \<open>current_count\<close> are the two local variables of the source; \<open>max_words\<close> is a
  Python integer, so it may be zero or negative.
\<close>

fun chunk_loop :: "int \<Rightarrow> string list \<Rightarrow> string list \<Rightarrow> int \<Rightarrow> string list" where
  "chunk_loop max_words [] current_chunk current_count =
     (if current_chunk \<noteq> [] then [str_join '' '' current_chunk] else [])"
| "chunk_loop max_words (word # words) current_chunk current_count =
     (let current_chunk = current_chunk @ [word];
          current_count = current_count + 1
      in if current_count \<ge> max_words
         then str_join '' '' current_chunk # chunk_loop max_words words [] 0
         else chunk_loop max_words words current_chunk current_count)"

definition chunk_text :: "string \<Rightarrow> int \<Rightarrow> string list" where
  "chunk_text text max_words = chunk_loop max_words (str_split text) [] 0"


text \<open>
  The same loop as the generator object Python makes of it. The state of a suspended
  generator is the rest of \<open>words\<close> with the two local variables, or \<open>Finished\<close> after the
  last \<^verbatim>\<open>yield\<close>. \<open>chunk_text_next\<close> is one call of \<^verbatim>\<open>next\<close>: it runs the loop to the
  next \<^verbatim>\<open>yield\<close> (\<open>None\<close>: \<^verbatim>\<open>StopIteration\<close>). \<open>list_of_generator\<close> calls it until the
  generator is exhausted, as a \<^verbatim>\<open>for\<close> loop does.
\<close>


datatype chunk_generator = Running "string list" "string list" int | Finished

fun pending :: "chunk_generator \<Rightarrow> nat" where
  "pending Finished = 0"
| "pending (Running words current_chunk current_count) = Suc (length words)"

function chunk_text_next :: "int \<Rightarrow> chunk_generator \<Rightarrow> (string \<times> chunk_generator) option" where
  "chunk_text_next limit Finished = None"
| "chunk_text_next limit (Running [] current_chunk current_count) =
     (if current_chunk \<noteq> [] then Some (str_join '' '' current_chunk, Finished) else None)"
| "chunk_text_next limit (Running (word # words) current_chunk current_count) =
     (let current_chunk = current_chunk @ [word];
          current_count = current_count + 1
      in if current_count \<ge> limit
         then Some (str_join '' '' current_chunk, Running words [] 0)
         else chunk_text_next limit (Running words current_chunk current_count))"
  by pat_completeness auto
termination
  by (relation "measure (\<lambda>(limit, g). pending g)") auto

function list_of_generator :: "int \<Rightarrow> chunk_generator \<Rightarrow> string list" where
  "list_of_generator limit g =
     (case chunk_text_next limit g of
        None \<Rightarrow> []
      | Some (c, g') \<Rightarrow> c # list_of_generator limit g')"
  by pat_completeness auto
termination
proof (relation "measure (\<lambda>(limit, g). pending g)")
  show "wf (measure (\<lambda>(limit, g). pending g))" by simp
next
  fix limit :: int and g x2 c g'
  assume next_chunk: "chunk_text_next limit g = Some x2" and x2: "(c, g') = x2"
  have "chunk_text_next limit g = Some (c, g') \<Longrightarrow> pending g' < pending g"
  proof (induction limit g arbitrary: c g' rule: chunk_text_next.induct)
    case (1 limit)
    then show ?case by simp
  next
    case (2 limit current_chunk current_count)
    then show ?case by (auto split: if_splits)
  next
    case (3 limit word words current_chunk current_count)
    show ?case
    proof (cases "current_count + 1 \<ge> limit")
      case True
      with "3.prems" show ?thesis by (auto simp: Let_def)
    next
      case False
      with "3.prems" have "chunk_text_next limit
          (Running words (current_chunk @ [word]) (current_count + 1)) = Some (c, g')"
        by (simp add: Let_def)
      with "3.IH" [OF refl refl] False have "pending g' < Suc (length words)" by simp
      then show ?thesis by simp
    qed
  qed
  with next_chunk x2 show "((limit, g'), (limit, g)) \<in> measure (\<lambda>(limit, g). pending g)"
    by simp
qed

section \<open>Auxiliary notions for the proofs\<close>

text \<open>
  A word is clean when it is not empty and contains no whitespace. \<open>chunk_blocks\<close> is the
  loop of the chunker without the final join: it returns the lists of words.
\<close>

definition clean_word :: "string \<Rightarrow> bool" where
  "clean_word w = (w \<noteq> [] \<and> (\<forall>c \<in> set w. \<not> isspace c))"

fun chunk_blocks :: "int \<Rightarrow> 'a list \<Rightarrow> 'a list \<Rightarrow> int \<Rightarrow> 'a list list" where
  "chunk_blocks max_words [] current_chunk current_count =
     (if current_chunk \<noteq> [] then [current_chunk] else [])"
| "chunk_blocks max_words (word # words) current_chunk current_count =
     (let current_chunk = current_chunk @ [word];
          current_count = current_count + 1
      in if current_count \<ge> max_words
         then current_chunk # chunk_blocks max_words words [] 0
         else chunk_blocks max_words words current_chunk current_count)"


section \<open>Further library functions\<close>

text \<open>
  \<^item> \<open>str_lower\<close> is \<^verbatim>\<open>str.lower()\<close> on the code points below 256: the letters A..Z
    and the accented capitals 192..222 (without the multiplication sign 215) move to
    their lower case form, every other character stays.
  \<^item> \<open>suffix\<close> is \<^verbatim>\<open>PurePath.suffix\<close> applied to a file name: the part from the last
    dot on, provided that dot is neither the first nor the last character.
  \<^item> \<open>str_nat\<close> is \<^verbatim>\<open>str(i)\<close> for a natural number, in decimal.
  \<^item> \<open>py_int\<close> is \<^verbatim>\<open>int(s)\<close> for a string: whitespace around the number is dropped, one
    sign is allowed, then decimal digits, where single underscores may separate digits.
    \<open>None\<close> stands for \<^verbatim>\<open>ValueError\<close>. Among the code points below 256, \<^verbatim>\<open>int\<close> drops a
    smaller set of characters than \<^verbatim>\<open>str.strip\<close> does: 9..13, 32, 133 and 160, but not
    28..31 (\<open>int_isspace\<close>, \<open>int_strip\<close>). A string with more than 4300 digits is
    refused, which is the limit the interpreter starts with (CPython 3.11 and later).
    The decimal digits of other scripts, which \<^verbatim>\<open>int\<close> also reads, lie beyond code point 255.
\<close>

definition newline :: string where
  "newline = [CHR 0x0A]"

definition ascii_uppercase :: string where
  "ascii_uppercase = ''ABCDEFGHIJKLMNOPQRSTUVWXYZ''"

definition ascii_lowercase :: string where
  "ascii_lowercase = ''abcdefghijklmnopqrstuvwxyz''"

definition latin1_uppercase :: string where
  "latin1_uppercase =
     [CHR 0xC0, CHR 0xC1, CHR 0xC2, CHR 0xC3, CHR 0xC4, CHR 0xC5, CHR 0xC6, CHR 0xC7,
      CHR 0xC8, CHR 0xC9, CHR 0xCA, CHR 0xCB, CHR 0xCC, CHR 0xCD, CHR 0xCE, CHR 0xCF,
      CHR 0xD0, CHR 0xD1, CHR 0xD2, CHR 0xD3, CHR 0xD4, CHR 0xD5, CHR 0xD6,
      CHR 0xD8, CHR 0xD9, CHR 0xDA, CHR 0xDB, CHR 0xDC, CHR 0xDD, CHR 0xDE]"

definition latin1_lowercase :: string where
  "latin1_lowercase =
     [CHR 0xE0, CHR 0xE1, CHR 0xE2, CHR 0xE3, CHR 0xE4, CHR 0xE5, CHR 0xE6, CHR 0xE7,
      CHR 0xE8, CHR 0xE9, CHR 0xEA, CHR 0xEB, CHR 0xEC, CHR 0xED, CHR 0xEE, CHR 0xEF,
      CHR 0xF0, CHR 0xF1, CHR 0xF2, CHR 0xF3, CHR 0xF4, CHR 0xF5, CHR 0xF6,
      CHR 0xF8, CHR 0xF9, CHR 0xFA, CHR 0xFB, CHR 0xFC, CHR 0xFD, CHR 0xFE]"

definition str_lower :: "string \<Rightarrow> string" where
  "str_lower s =
     map (\<lambda>c. case map_of (zip (ascii_uppercase @ latin1_uppercase)
                                (ascii_lowercase @ latin1_lowercase)) c of
                 None \<Rightarrow> c
               | Some l \<Rightarrow> l) s"

definition str_rfind :: "char \<Rightarrow> string \<Rightarrow> int" where
  "str_rfind c s =
     (if c \<in> set s
      then int (length s) - 1 - int (length (takeWhile (\<lambda>x. x \<noteq> c) (rev s)))
      else - 1)"

definition suffix :: "string \<Rightarrow> string" where
  "suffix name =
     (let i = str_rfind (CHR ''.'') name
      in if 0 < i \<and> i < int (length name) - 1 then drop (nat i) name else [])"

function str_nat :: "nat \<Rightarrow> string" where
  "str_nat n =
     (if n < 10 then [''0123456789'' ! n]
      else str_nat (n div 10) @ [''0123456789'' ! (n mod 10)])"
  by pat_completeness auto
termination
  by (relation "measure id") auto

definition is_digit :: "char \<Rightarrow> bool" where
  "is_digit c = (let n = (of_char c :: nat) in 48 \<le> n \<and> n \<le> 57)"

definition digit_value :: "char \<Rightarrow> int" where
  "digit_value c = int (of_char c) - 48"

fun parse_digits :: "string \<Rightarrow> int \<Rightarrow> int option" where
  "parse_digits [] acc = Some acc"
| "parse_digits [c] acc = (if is_digit c then Some (10 * acc + digit_value c) else None)"
| "parse_digits (c # d # ds) acc =
     (if is_digit c then parse_digits (d # ds) (10 * acc + digit_value c)
      else if c = CHR ''_'' \<and> is_digit d then parse_digits ds (10 * acc + digit_value d)
      else None)"

definition int_isspace :: "char \<Rightarrow> bool" where
  "int_isspace c =
     (let n = (of_char c :: nat)
      in (9 \<le> n \<and> n \<le> 13) \<or> n = 32 \<or> n = 133 \<or> n = 160)"

definition int_strip :: "string \<Rightarrow> string" where
  "int_strip s = rev (dropWhile int_isspace (rev (dropWhile int_isspace s)))"

definition py_int :: "string \<Rightarrow> int option" where
  "py_int s =
     (let t = int_strip s;
          negative = (t \<noteq> [] \<and> hd t = CHR ''-'');
          body = (if t \<noteq> [] \<and> (hd t = CHR ''-'' \<or> hd t = CHR ''+'') then tl t else t)
      in case body of
           [] \<Rightarrow> None
         | c # cs \<Rightarrow>
             if is_digit c \<and> length (filter is_digit body) \<le> 4300
             then map_option (\<lambda>v. if negative then - v else v) (parse_digits cs (digit_value c))
             else None)"

section \<open>The inference client\<close>

text \<open>
  Exceptions are values. \<open>RequestException\<close> stands for
  \<^verbatim>\<open>requests.exceptions.RequestException\<close> and all its subclasses (\<^verbatim>\<open>ConnectionError\<close>,
  \<^verbatim>\<open>HTTPError\<close>, \<^verbatim>\<open>JSONDecodeError\<close> of the library, ...); the string is \<^verbatim>\<open>str(e)\<close>.

  The endpoint is outside the program. What it does with one request is an
  \<open>http_reply\<close>: either \<^verbatim>\<open>requests.post\<close> raises, or a response arrives with a status
  code, the reason phrase of the status line and a body. A body is either not JSON
  (then \<^verbatim>\<open>response.json()\<close> raises the library's \<^verbatim>\<open>JSONDecodeError\<close>, a
  \<^verbatim>\<open>RequestException\<close> since version 2.27 of the library, with the given message), a JSON
  object, given by its members in document order with strings as contents, or another
  JSON document. \<open>raise_for_status\<close> raises for the status codes 400..599.
  \<open>response_json_response\<close> is the expression \<^verbatim>\<open>response.json()['response']\<close>.

  \<open>process_text_with_ollama\<close> takes the behaviour of the endpoint for this one call as
  its first argument. Its result is \<open>Inr\<close> of the returned string or \<open>Inl\<close> of the
  exception that leaves the function: the \<^verbatim>\<open>except\<close> clause catches
  \<^verbatim>\<open>RequestException\<close> only.
\<close>

datatype py_exception =
    RequestException string
  | UnicodeDecodeError string
  | KeyError string
  | TypeError string
  | OtherException string

record request =
  req_url :: string
  req_headers :: "(string \<times> string) list"
  req_model :: string
  req_prompt :: string
  req_stream :: bool
  req_temperature :: real
  req_num_ctx :: nat

datatype response_body =
    NotJson string
  | JsonObject "(string \<times> string) list"
  | JsonOther

datatype http_reply =
    PostRaised py_exception
  | Response nat string response_body

definition build_request ::
  "string \<Rightarrow> string \<Rightarrow> string \<Rightarrow> string \<Rightarrow> real \<Rightarrow> string option \<Rightarrow> request" where
  "build_request text prompt url model temperature api_key =
     \<lparr> req_url = url @ ''/api/generate'',
       req_headers =
         (''Content-Type'', ''application/json'') #
         (case api_key of
            None \<Rightarrow> []
          | Some k \<Rightarrow> if k \<noteq> [] then [(''Authorization'', ''Bearer '' @ k)] else []),
       req_model = model,
       req_prompt = prompt @ newline @ newline @ ''Text: '' @ text,
       req_stream = False,
       req_temperature = temperature,
       req_num_ctx = 20480 \<rparr>"

definition raise_for_status :: "nat \<Rightarrow> string \<Rightarrow> string \<Rightarrow> py_exception option" where
  "raise_for_status status reason url =
     (if 400 \<le> status \<and> status < 500
      then Some (RequestException
                   (str_nat status @ '' Client Error: '' @ reason @ '' for url: '' @ url))
      else if 500 \<le> status \<and> status < 600
      then Some (RequestException
                   (str_nat status @ '' Server Error: '' @ reason @ '' for url: '' @ url))
      else None)"

definition response_json_response :: "response_body \<Rightarrow> py_exception + string" where
  "response_json_response body =
     (case body of
        NotJson msg \<Rightarrow> Inl (RequestException msg)
      | JsonOther \<Rightarrow> Inl (TypeError ''not subscriptable by a string key'')
      | JsonObject members \<Rightarrow>
          (case map_of (rev members) ''response'' of
             None \<Rightarrow> Inl (KeyError ([CHR 0x27] @ ''response'' @ [CHR 0x27]))
           | Some r \<Rightarrow> Inr r))"

definition process_text_with_ollama ::
  "(request \<Rightarrow> http_reply) \<Rightarrow> string \<Rightarrow> string \<Rightarrow> string \<Rightarrow> string \<Rightarrow> real \<Rightarrow> string option
     \<Rightarrow> py_exception + string" where
  "process_text_with_ollama post text prompt url model temperature api_key =
     (let data = build_request text prompt url model temperature api_key;
          attempt =
            (case post data of
               PostRaised ex \<Rightarrow> Inl ex
             | Response status reason body \<Rightarrow>
                 (case raise_for_status status reason (req_url data) of
                    Some ex \<Rightarrow> Inl ex
                  | None \<Rightarrow> response_json_response body))
      in case attempt of
           Inl (RequestException e) \<Rightarrow> Inr (''Error processing chunk: '' @ e)
         | Inl ex \<Rightarrow> Inl ex
         | Inr response \<Rightarrow> Inr response)"

section \<open>Text extraction\<close>

text \<open>
  A directory entry is given by its name and by what the libraries return when the
  program reads it: the result of reading it as UTF-8 text, as Latin-1 text, the texts of
  its pages when opened as a PDF file, and the texts of its paragraphs when opened as a
  Word document; each of them may be an exception instead. Messages printed to the
  console by the extractors are not part of the model.
\<close>

record dir_entry =
  entry_name :: string
  read_utf8 :: "py_exception + string"
  read_latin1 :: "py_exception + string"
  pdf_pages :: "py_exception + string list"
  docx_paragraphs :: "py_exception + string list"

definition extract_text_from_pdf :: "dir_entry \<Rightarrow> string" where
  "extract_text_from_pdf e =
     (case pdf_pages e of
        Inl ex \<Rightarrow> []
      | Inr pages \<Rightarrow> foldl (\<lambda>text page. text @ page @ newline) [] pages)"

definition extract_text_from_docx :: "dir_entry \<Rightarrow> string" where
  "extract_text_from_docx e =
     (case docx_paragraphs e of
        Inl ex \<Rightarrow> []
      | Inr paras \<Rightarrow> foldl (\<lambda>text para. text @ para @ newline) [] paras)"

definition extract_text_from_file :: "dir_entry \<Rightarrow> py_exception + string" where
  "extract_text_from_file e =
     (let file_extension = str_lower (suffix (entry_name e))
      in if file_extension = ''.txt''
         then (case read_utf8 e of
                 Inr text \<Rightarrow> Inr text
               | Inl (UnicodeDecodeError m) \<Rightarrow>
                   (case read_latin1 e of Inr text \<Rightarrow> Inr text | Inl ex \<Rightarrow> Inr [])
               | Inl ex \<Rightarrow> Inl ex)
         else if file_extension = ''.pdf'' then Inr (extract_text_from_pdf e)
         else if file_extension \<in> set [''.docx'', ''.doc''] then Inr (extract_text_from_docx e)
         else Inr [])"

section \<open>The drivers\<close>

text \<open>
  \<open>args\<close> is the namespace returned by \<^verbatim>\<open>argparse\<close>; the front end passes the same
  values as parameters and object attributes.

  A run is described by the list of its effects, in the order they happen:
  \<^item> \<open>Touched\<close>: \<^verbatim>\<open>output_file.touch(exist_ok=True)\<close>;
  \<^item> \<open>Truncated\<close>: the file is opened with mode \<^verbatim>\<open>'w'\<close> and the empty string is written;
  \<^item> \<open>Posted r\<close>: one call of \<^verbatim>\<open>process_text_with_ollama\<close>, which posts the request \<open>r\<close>;
  \<^item> \<open>Appended h r\<close>: the file is opened with mode \<^verbatim>\<open>'a'\<close>, and the header \<open>h\<close> and
    the response \<open>r\<close> are written;
  \<^item> \<open>ProcessingFile\<close>, \<open>Skipped\<close>, \<open>FileError\<close>, \<open>Interrupted\<close>, \<open>Completed\<close>: the
    messages "Processing file", "No text extracted ... Skipping", "Error processing",
    "Processing interrupted by user" and "Processing complete";
  \<^item> \<open>ErrorDialog\<close>: \<^verbatim>\<open>messagebox.showerror\<close>;
  \<^item> \<open>UsageError\<close>: \<^verbatim>\<open>parser.parse_args()\<close> prints the usage message with an error and
    ends the program (exit status 2).
  The printed copies of the responses are left out. \<open>out_txt_after\<close> gives the content
  of \<^verbatim>\<open>out.txt\<close> after a list of effects, from its content before (\<open>None\<close>: no such file).

  The endpoint may answer every call differently, so it is a function of the number of
  calls made before (\<open>calls\<close>); \<open>infer endpoint a n text\<close> is the call of
  \<^verbatim>\<open>process_text_with_ollama\<close> the drivers make, when \<open>n\<close> calls were made before. The flag \<^verbatim>\<open>self.stop_processing\<close> is written by the
  thread of the user interface; the worker only reads it. The model gives what the
  worker finds at its \<open>n\<close>-th read as \<open>stop_processing n\<close> (\<open>checks\<close> counts the reads).

  The body of the \<^verbatim>\<open>try\<close> statement of each driver is \<open>cli_file_body\<close> / \<open>gui_file_body\<close>; it
  returns the exception that reaches the \<^verbatim>\<open>except Exception\<close> clause, if any. Its
  second half, from the word count on (lines 143 to 169 of the command line program,
  244 to 264 of the front end), is \<open>cli_send_text\<close> / \<open>gui_send_text\<close>. The loops
  over the chunks are \<open>cli_chunks\<close> and \<open>gui_chunks\<close>, the loops over the directory
  \<open>cli_files\<close> and \<open>gui_files\<close>. \<open>main\<close> is the body of \<^verbatim>\<open>main()\<close> after \<^verbatim>\<open>parser.parse_args()\<close>.

  Lines 106 to 118 are \<open>parse_args\<close>. A \<open>command_line\<close> is the command line as
  \<^verbatim>\<open>argparse\<close> has matched it: the positional arguments in order and, for every option, the
  strings given for it in order (the last one counts); for \<^verbatim>\<open>--temperature\<close> each string is
  given by what \<^verbatim>\<open>float\<close> makes of it (\<open>None\<close>: \<^verbatim>\<open>ValueError\<close>). The parser of the program
  asks for three positional arguments and converts every string given for \<^verbatim>\<open>--max-words\<close>
  with \<^verbatim>\<open>int\<close>; a conversion that fails, a missing and a surplus positional argument end
  the program with a usage error (\<open>None\<close>). An option without its argument, an unknown
  option and the help option also end the program inside the library; they are not part
  of the model. \<open>main_with_arguments\<close> is all of \<^verbatim>\<open>main()\<close>.
  \<open>start_processing\<close> includes the worker thread it starts; \<open>gui_args\<close> collects the
  values it passes to the worker (target directory, stripped prompt, word limit, model and
  URL) with the temperature 0.6 and the absent API key of the object.
\<close>

record args =
  directory :: string
  prompt :: string
  url :: string
  api_key :: "string option"
  max_words :: int
  model :: string
  temperature :: real

record progress =
  calls :: nat
  checks :: nat

datatype event =
    Touched
  | Truncated
  | Posted request
  | Appended string string
  | ProcessingFile string
  | Skipped string
  | FileError string py_exception
  | Interrupted
  | Completed
  | ErrorDialog string string
  | UsageError

fun file_effect :: "string option \<Rightarrow> event \<Rightarrow> string option" where
  "file_effect None Touched = Some []"
| "file_effect (Some content) Touched = Some content"
| "file_effect f Truncated = Some []"
| "file_effect None (Appended header response) = Some (header @ response)"
| "file_effect (Some content) (Appended header response) = Some (content @ header @ response)"
| "file_effect f ev = f"

definition out_txt_after :: "string option \<Rightarrow> event list \<Rightarrow> string option" where
  "out_txt_after initial evs = foldl file_effect initial evs"

definition file_header :: "string \<Rightarrow> string" where
  "file_header fname = newline @ newline @ ''=== Response for '' @ fname @ '' ==='' @ newline"

definition chunk_header :: "string \<Rightarrow> nat \<Rightarrow> string" where
  "chunk_header fname i =
     newline @ newline @ ''=== Response for '' @ fname @ '' (chunk '' @ str_nat i @ '') ===''
       @ newline"

definition glob_star_dot_star :: "dir_entry list \<Rightarrow> dir_entry list" where
  "glob_star_dot_star listing = filter (\<lambda>e. CHR ''.'' \<in> set (entry_name e)) listing"

definition is_supported_input :: "dir_entry \<Rightarrow> bool" where
  "is_supported_input file_path =
     (str_lower (suffix (entry_name file_path)) \<in> set [''.txt'', ''.pdf'', ''.doc'', ''.docx'']
      \<and> entry_name file_path \<noteq> ''out.txt'')"

definition infer ::
  "(nat \<Rightarrow> request \<Rightarrow> http_reply) \<Rightarrow> args \<Rightarrow> nat \<Rightarrow> string \<Rightarrow> py_exception + string" where
  "infer endpoint a n text =
     process_text_with_ollama (endpoint n) text
       (prompt a) (url a) (model a) (temperature a) (api_key a)"

definition request_for :: "args \<Rightarrow> string \<Rightarrow> request" where
  "request_for a text =
     build_request text (prompt a) (url a) (model a) (temperature a) (api_key a)"

definition posted :: "args \<Rightarrow> string \<Rightarrow> event" where
  "posted a text = Posted (request_for a text)"

definition called :: "progress \<Rightarrow> progress" where
  "called p = p\<lparr>calls := Suc (calls p)\<rparr>"

definition checked :: "progress \<Rightarrow> progress" where
  "checked p = p\<lparr>checks := Suc (checks p)\<rparr>"

fun cli_chunks ::
  "(nat \<Rightarrow> request \<Rightarrow> http_reply) \<Rightarrow> args \<Rightarrow> string \<Rightarrow> nat \<Rightarrow> string list \<Rightarrow> progress
     \<Rightarrow> py_exception option \<times> event list \<times> progress" where
  "cli_chunks endpoint a fname i [] p = (None, [], p)"
| "cli_chunks endpoint a fname i (chunk # chunks) p =
     (case infer endpoint a (calls p) chunk of
        Inl ex \<Rightarrow> (Some ex, [posted a chunk], called p)
      | Inr response \<Rightarrow>
          (case cli_chunks endpoint a fname (Suc i) chunks (called p) of
             (raised, evs, p') \<Rightarrow>
               (raised, posted a chunk # Appended (chunk_header fname i) response # evs, p')))"

definition cli_send_text ::
  "(nat \<Rightarrow> request \<Rightarrow> http_reply) \<Rightarrow> args \<Rightarrow> string \<Rightarrow> string \<Rightarrow> progress
     \<Rightarrow> py_exception option \<times> event list \<times> progress" where
  "cli_send_text endpoint a fname text p =
     (let word_count = int (length (str_split text))
      in if word_count \<le> max_words a
         then (case infer endpoint a (calls p) text of
                 Inl ex \<Rightarrow> (Some ex, [posted a text], called p)
               | Inr response \<Rightarrow>
                   (None, [posted a text, Appended (file_header fname) response], called p))
         else cli_chunks endpoint a fname 1 (chunk_text text (max_words a)) p)"

definition cli_file_body ::
  "(nat \<Rightarrow> request \<Rightarrow> http_reply) \<Rightarrow> args \<Rightarrow> dir_entry \<Rightarrow> progress
     \<Rightarrow> py_exception option \<times> event list \<times> progress" where
  "cli_file_body endpoint a file_path p =
     (case extract_text_from_file file_path of
        Inl ex \<Rightarrow> (Some ex, [], p)
      | Inr raw \<Rightarrow>
          if raw = [] then (None, [Skipped (entry_name file_path)], p)
          else cli_send_text endpoint a (entry_name file_path) (normalize_whitespace raw) p)"

definition cli_process_file ::
  "(nat \<Rightarrow> request \<Rightarrow> http_reply) \<Rightarrow> args \<Rightarrow> dir_entry \<Rightarrow> progress \<Rightarrow> event list \<times> progress" where
  "cli_process_file endpoint a file_path p =
     (case cli_file_body endpoint a file_path p of
        (None, evs, p') \<Rightarrow> (ProcessingFile (entry_name file_path) # evs, p')
      | (Some ex, evs, p') \<Rightarrow>
          (ProcessingFile (entry_name file_path) # evs @ [FileError (entry_name file_path) ex], p'))"

fun cli_files ::
  "(nat \<Rightarrow> request \<Rightarrow> http_reply) \<Rightarrow> args \<Rightarrow> dir_entry list \<Rightarrow> progress \<Rightarrow> event list \<times> progress" where
  "cli_files endpoint a [] p = ([], p)"
| "cli_files endpoint a (file_path # rest) p =
     (if is_supported_input file_path
      then (case cli_process_file endpoint a file_path p of
              (evs, p') \<Rightarrow>
                (case cli_files endpoint a rest p' of (evs', p'') \<Rightarrow> (evs @ evs', p'')))
      else cli_files endpoint a rest p)"

definition main :: "(nat \<Rightarrow> request \<Rightarrow> http_reply) \<Rightarrow> args \<Rightarrow> dir_entry list \<Rightarrow> event list" where
  "main endpoint a listing =
     Touched # fst (cli_files endpoint a (glob_star_dot_star listing) \<lparr>calls = 0, checks = 0\<rparr>)"

record command_line =
  positionals :: "string list"
  api_key_given :: "string list"
  max_words_given :: "string list"
  model_given :: "string list"
  temperature_given :: "real option list"

definition parse_args :: "command_line \<Rightarrow> args option" where
  "parse_args cl =
     (if list_ex (\<lambda>s. py_int s = None) (max_words_given cl) then None
      else if list_ex (\<lambda>t. t = None) (temperature_given cl) then None
      else
        (case positionals cl of
           [d, p, u] \<Rightarrow>
             Some \<lparr> directory = d, prompt = p, url = u,
                    api_key = (if api_key_given cl = [] then None
                               else Some (last (api_key_given cl))),
                    max_words = (if max_words_given cl = [] then 3000
                                 else (case py_int (last (max_words_given cl)) of
                                         Some m \<Rightarrow> m | None \<Rightarrow> 3000)),
                    model = (if model_given cl = [] then ''deepseek-r1:32b-qwen-distill-q8_0''
                             else last (model_given cl)),
                    temperature = (if temperature_given cl = [] then 6 / 10
                                   else (case last (temperature_given cl) of
                                           Some t \<Rightarrow> t | None \<Rightarrow> 6 / 10)) \<rparr>
         | _ \<Rightarrow> None))"

definition main_with_arguments ::
  "(nat \<Rightarrow> request \<Rightarrow> http_reply) \<Rightarrow> command_line \<Rightarrow> dir_entry list \<Rightarrow> event list" where
  "main_with_arguments endpoint cl listing =
     (case parse_args cl of
        None \<Rightarrow> [UsageError]
      | Some a \<Rightarrow> main endpoint a listing)"

fun gui_chunks ::
  "(nat \<Rightarrow> request \<Rightarrow> http_reply) \<Rightarrow> (nat \<Rightarrow> bool) \<Rightarrow> args \<Rightarrow> string \<Rightarrow> nat \<Rightarrow> string list
     \<Rightarrow> progress \<Rightarrow> py_exception option \<times> event list \<times> progress" where
  "gui_chunks endpoint stop_processing a fname i [] p = (None, [], p)"
| "gui_chunks endpoint stop_processing a fname i (chunk # chunks) p =
     (if stop_processing (checks p) then (None, [Interrupted], checked p)
      else
        (case infer endpoint a (calls p) chunk of
           Inl ex \<Rightarrow> (Some ex, [posted a chunk], called (checked p))
         | Inr response \<Rightarrow>
             (case gui_chunks endpoint stop_processing a fname (Suc i) chunks
                     (called (checked p)) of
                (raised, evs, p') \<Rightarrow>
                  (raised, posted a chunk # Appended (chunk_header fname i) response # evs, p'))))"

definition gui_send_text ::
  "(nat \<Rightarrow> request \<Rightarrow> http_reply) \<Rightarrow> (nat \<Rightarrow> bool) \<Rightarrow> args \<Rightarrow> string \<Rightarrow> string \<Rightarrow> progress
     \<Rightarrow> py_exception option \<times> event list \<times> progress" where
  "gui_send_text endpoint stop_processing a fname text p =
     (let word_count = int (length (str_split text))
      in if word_count \<le> max_words a
         then (case infer endpoint a (calls p) text of
                 Inl ex \<Rightarrow> (Some ex, [posted a text], called p)
               | Inr response \<Rightarrow>
                   (None, [posted a text, Appended (file_header fname) response], called p))
         else gui_chunks endpoint stop_processing a fname 1 (chunk_text text (max_words a)) p)"

definition gui_file_body ::
  "(nat \<Rightarrow> request \<Rightarrow> http_reply) \<Rightarrow> (nat \<Rightarrow> bool) \<Rightarrow> args \<Rightarrow> dir_entry \<Rightarrow> progress
     \<Rightarrow> py_exception option \<times> event list \<times> progress" where
  "gui_file_body endpoint stop_processing a file_path p =
     (case extract_text_from_file file_path of
        Inl ex \<Rightarrow> (Some ex, [], p)
      | Inr raw \<Rightarrow>
          if raw = [] then (None, [Skipped (entry_name file_path)], p)
          else gui_send_text endpoint stop_processing a (entry_name file_path)
                 (normalize_whitespace raw) p)"

definition gui_process_file ::
  "(nat \<Rightarrow> request \<Rightarrow> http_reply) \<Rightarrow> (nat \<Rightarrow> bool) \<Rightarrow> args \<Rightarrow> dir_entry \<Rightarrow> progress
     \<Rightarrow> event list \<times> progress" where
  "gui_process_file endpoint stop_processing a file_path p =
     (case gui_file_body endpoint stop_processing a file_path p of
        (None, evs, p') \<Rightarrow> (ProcessingFile (entry_name file_path) # evs, p')
      | (Some ex, evs, p') \<Rightarrow>
          (ProcessingFile (entry_name file_path) # evs @ [FileError (entry_name file_path) ex], p'))"

fun gui_files ::
  "(nat \<Rightarrow> request \<Rightarrow> http_reply) \<Rightarrow> (nat \<Rightarrow> bool) \<Rightarrow> args \<Rightarrow> dir_entry list \<Rightarrow> progress
     \<Rightarrow> event list \<times> progress" where
  "gui_files endpoint stop_processing a [] p = ([], p)"
| "gui_files endpoint stop_processing a (file_path # rest) p =
     (if stop_processing (checks p) then ([Interrupted], checked p)
      else if is_supported_input file_path
      then (case gui_process_file endpoint stop_processing a file_path (checked p) of
              (evs, p') \<Rightarrow>
                (case gui_files endpoint stop_processing a rest p' of
                   (evs', p'') \<Rightarrow> (evs @ evs', p'')))
      else gui_files endpoint stop_processing a rest (checked p))"

definition process_documents ::
  "(nat \<Rightarrow> request \<Rightarrow> http_reply) \<Rightarrow> (nat \<Rightarrow> bool) \<Rightarrow> args \<Rightarrow> dir_entry list \<Rightarrow> event list" where
  "process_documents endpoint stop_processing a listing =
     fst (gui_files endpoint stop_processing a (glob_star_dot_star listing)
            \<lparr>calls = 0, checks = 0\<rparr>) @ [Completed]"

record gui_fields =
  directory_var :: string
  prompt_text :: string
  max_words_var :: string
  model_var :: string
  api_url_var :: string

definition gui_args :: "gui_fields \<Rightarrow> int \<Rightarrow> args" where
  "gui_args form max_words_int =
     \<lparr> directory = directory_var form, prompt = str_strip (prompt_text form),
       url = api_url_var form, api_key = None, max_words = max_words_int,
       model = model_var form, temperature = 6 / 10 \<rparr>"

definition start_processing ::
  "(nat \<Rightarrow> request \<Rightarrow> http_reply) \<Rightarrow> (nat \<Rightarrow> bool) \<Rightarrow> gui_fields \<Rightarrow> dir_entry list \<Rightarrow> event list" where
  "start_processing endpoint stop_processing form listing =
     (let target_dir = directory_var form;
          prompt_str = str_strip (prompt_text form)
      in case py_int (max_words_var form) of
           None \<Rightarrow> [ErrorDialog ''Input Error'' ''Max Words must be an integer.'']
         | Some max_words_int \<Rightarrow>
             let model_str = model_var form;
                 api_url = api_url_var form
             in if target_dir = [] \<or> prompt_str = [] \<or> model_str = [] \<or> api_url = []
                then [ErrorDialog ''Input Error'' ''Please fill in all required fields.'']
                else Touched # Truncated #
                       process_documents endpoint stop_processing
                         (gui_args form max_words_int) listing)"

section \<open>Observations on a run\<close>

text \<open>
  \<open>started_files\<close> lists the files whose processing began, \<open>records\<close> the records
  appended to the output file (header and body), \<open>requests\<close> the requests posted, each
  in order. \<open>worker_event\<close> holds of the effects other than creating or clearing the
  output file and showing a dialog. \<open>transport_failure\<close> picks the three kinds of
  failure that the library reports as a \<^verbatim>\<open>RequestException\<close> and gives the message:
  \<^verbatim>\<open>requests.post\<close> raised one (a connection error), the status is one \<^verbatim>\<open>raise_for_status\<close>
  raises for (400..599), or the body is not JSON. A body that is JSON but has no member
  \<^verbatim>\<open>response\<close>, or is no object, is not among them.
\<close>

fun started_files :: "event list \<Rightarrow> string list" where
  "started_files [] = []"
| "started_files (ProcessingFile fname # evs) = fname # started_files evs"
| "started_files (ev # evs) = started_files evs"

fun records :: "event list \<Rightarrow> (string \<times> string) list" where
  "records [] = []"
| "records (Appended header response # evs) = (header, response) # records evs"
| "records (ev # evs) = records evs"

fun requests :: "event list \<Rightarrow> request list" where
  "requests [] = []"
| "requests (Posted r # evs) = r # requests evs"
| "requests (ev # evs) = requests evs"

fun worker_event :: "event \<Rightarrow> bool" where
  "worker_event Touched = False"
| "worker_event Truncated = False"
| "worker_event (ErrorDialog title message) = False"
| "worker_event UsageError = False"
| "worker_event ev = True"

definition transport_failure :: "http_reply \<Rightarrow> string \<Rightarrow> string option" where
  "transport_failure reply request_url =
     (case reply of
        PostRaised (RequestException msg) \<Rightarrow> Some msg
      | PostRaised ex \<Rightarrow> None
      | Response status reason body \<Rightarrow>
          if 400 \<le> status \<and> status < 500
          then Some (str_nat status @ '' Client Error: '' @ reason @ '' for url: '' @ request_url)
          else if 500 \<le> status \<and> status < 600
          then Some (str_nat status @ '' Server Error: '' @ reason @ '' for url: '' @ request_url)
          else (case body of NotJson msg \<Rightarrow> Some msg | JsonObject members \<Rightarrow> None | JsonOther \<Rightarrow> None))"

section \<open>Example inputs\<close>

text \<open>
  Concrete inputs for the instances below: a configuration with a given word limit, a
  readable text file, endpoints that answer every call alike, and flags.
\<close>

definition example_args :: "int \<Rightarrow> args" where
  "example_args limit =
     \<lparr> directory = ''docs'', prompt = ''P'', url = ''u'', api_key = None,
       max_words = limit, model = ''m'', temperature = 6 / 10 \<rparr>"

definition text_file :: "string \<Rightarrow> string \<Rightarrow> dir_entry" where
  "text_file fname content =
     \<lparr> entry_name = fname, read_utf8 = Inr content, read_latin1 = Inr content,
       pdf_pages = Inl (OtherException ''not a PDF file''),
       docx_paragraphs = Inl (OtherException ''not a Word document'') \<rparr>"

definition answering :: "string \<Rightarrow> nat \<Rightarrow> request \<Rightarrow> http_reply" where
  "answering r n req = Response 200 ''OK'' (JsonObject [(''response'', r)])"

definition replying :: "http_reply \<Rightarrow> nat \<Rightarrow> request \<Rightarrow> http_reply" where
  "replying reply n req = reply"

definition never_stopped :: "nat \<Rightarrow> bool" where
  "never_stopped n = False"

definition stopped_from :: "nat \<Rightarrow> nat \<Rightarrow> bool" where
  "stopped_from k n = (k \<le> n)"

definition example_command_line :: "string list \<Rightarrow> string list \<Rightarrow> command_line" where
  "example_command_line given_positionals given_max_words =
     \<lparr> positionals = given_positionals, api_key_given = [],
       max_words_given = given_max_words, model_given = [''m''], temperature_given = [] \<rparr>"

definition example_form :: "string \<Rightarrow> gui_fields" where
  "example_form words =
     \<lparr> directory_var = ''docs'', prompt_text = ''P'', max_words_var = words,
       model_var = ''m'', api_url_var = ''u'' \<rparr>"

declare str_split.simps [simp del]

declare list_of_generator.simps [simp del]

declare str_nat.simps [simp del]

section \<open>Splitting and joining\<close>

text \<open>
  The words of a text are clean; splitting undoes joining clean words with single
  spaces; and normalizing a text is the same as splitting it and joining the words with
  single spaces.
\<close>

lemma str_split_Nil: "str_split [] = []"
  by (simp add: str_split.simps)

lemma str_split_space: "isspace c \<Longrightarrow> str_split (c # s) = str_split s"
  by (simp add: str_split.simps [of "c # s"] str_split.simps [of s])

lemma str_split_lstrip: "str_split (dropWhile isspace s) = str_split s"
  by (induction s) (simp_all add: str_split_space)

lemma str_split_word:
  assumes w: "clean_word w" and r: "r = [] \<or> isspace (hd r)"
  shows "str_split (w @ r) = w # str_split r"
proof -
  from w obtain c w' where cw: "w = c # w'" and c: "\<not> isspace c"
    by (cases w) (auto simp: clean_word_def)
  have d: "dropWhile isspace (w @ r) = w @ r" using cw c by simp
  have tr: "takeWhile (\<lambda>c. \<not> isspace c) r = []" using r by (cases r) auto
  have dr: "dropWhile (\<lambda>c. \<not> isspace c) r = r" using r by (cases r) auto
  have t: "takeWhile (\<lambda>c. \<not> isspace c) (w @ r) = w"
    using w tr by (simp add: clean_word_def)
  have dd: "dropWhile (\<lambda>c. \<not> isspace c) (w @ r) = r"
    using w dr by (simp add: clean_word_def)
  show ?thesis
    using cw d t dd by (subst str_split.simps) (simp add: Let_def)
qed

lemma str_split_unfold:
  assumes "dropWhile isspace s \<noteq> []"
  shows "str_split s = takeWhile (\<lambda>c. \<not> isspace c) (dropWhile isspace s)
           # str_split (dropWhile (\<lambda>c. \<not> isspace c) (dropWhile isspace s))"
  using assms by (subst str_split.simps) (simp add: Let_def)

lemma head_word_clean:
  assumes "dropWhile isspace s \<noteq> []"
  shows "clean_word (takeWhile (\<lambda>c. \<not> isspace c) (dropWhile isspace s))"
proof -
  from assms obtain c r where cr: "dropWhile isspace s = c # r"
    by (cases "dropWhile isspace s") auto
  then have "\<not> isspace c" by (simp add: dropWhile_eq_Cons_conv)
  then show ?thesis
    unfolding clean_word_def cr by (auto dest: set_takeWhileD)
qed

lemma rest_starts_with_space:
  "dropWhile (\<lambda>c. \<not> isspace c) s = [] \<or> isspace (hd (dropWhile (\<lambda>c. \<not> isspace c) s))"
  using hd_dropWhile [of "\<lambda>c. \<not> isspace c" s] by auto

lemma str_split_clean: "w \<in> set (str_split s) \<Longrightarrow> clean_word w"
proof (induction s rule: str_split.induct)
  case (1 s)
  show ?case
  proof (cases "dropWhile isspace s = []")
    case True
    with "1.prems" show ?thesis by (simp add: str_split.simps [of s])
  next
    case False
    with "1.prems" "1.IH" [OF refl False] head_word_clean [OF False]
    show ?thesis by (auto simp: str_split_unfold [OF False])
  qed
qed

lemma str_join_Cons:
  "str_join sep (x # xs) = (if xs = [] then x else x @ sep @ str_join sep xs)"
  by (cases xs) simp_all

lemma str_join_append:
  "xs \<noteq> [] \<Longrightarrow> ys \<noteq> [] \<Longrightarrow> str_join sep (xs @ ys) = str_join sep xs @ sep @ str_join sep ys"
  by (induction xs) (auto simp: str_join_Cons)

lemma str_join_concat:
  "\<forall>b \<in> set bs. b \<noteq> [] \<Longrightarrow> str_join sep (map (str_join sep) bs) = str_join sep (concat bs)"
proof (induction bs)
  case Nil
  show ?case by simp
next
  case (Cons b bs)
  then have b: "b \<noteq> []" and bs: "\<forall>b \<in> set bs. b \<noteq> []" by auto
  show ?case
  proof (cases bs)
    case Nil
    then show ?thesis by simp
  next
    case (Cons b' bs')
    with bs have "concat bs \<noteq> []" by auto
    with b Cons.IH [OF bs] Cons show ?thesis
      by (simp add: str_join_append [of b "concat bs"] del: concat.simps)
         (simp add: str_join_append)
  qed
qed

lemma str_split_join:
  "\<forall>w \<in> set ws. clean_word w \<Longrightarrow> str_split (str_join '' '' ws) = ws"
proof (induction ws)
  case Nil
  show ?case by (simp add: str_split_Nil)
next
  case (Cons w ws)
  then have w: "clean_word w" and IH: "str_split (str_join '' '' ws) = ws" by auto
  have sp: "isspace (CHR '' '')" by (simp add: isspace_def)
  show ?case
  proof (cases ws)
    case Nil
    with str_split_word [OF w, of "[]"] show ?thesis by (simp add: str_split_Nil)
  next
    case (Cons v vs)
    have "str_split (w @ CHR '' '' # str_join '' '' ws) = w # str_split (CHR '' '' # str_join '' '' ws)"
      by (rule str_split_word [OF w]) (simp add: sp)
    with IH Cons show ?thesis by (simp add: str_split_space [OF sp])
  qed
qed

lemma re_sub_ws_word:
  "\<forall>c \<in> set w. \<not> isspace c \<Longrightarrow> re_sub_ws (w @ r) = w @ re_sub_ws r"
  by (induction w) simp_all

lemma re_sub_ws_lstrip:
  "dropWhile isspace (re_sub_ws s) = re_sub_ws (dropWhile isspace s)"
proof (cases s)
  case Nil
  then show ?thesis by simp
next
  case (Cons c cs)
  show ?thesis
  proof (cases "isspace c")
    case False
    with Cons show ?thesis by simp
  next
    case True
    have "dropWhile isspace (re_sub_ws (dropWhile isspace cs)) = re_sub_ws (dropWhile isspace cs)"
    proof (cases "dropWhile isspace cs")
      case Nil
      then show ?thesis by (simp del: dropWhile_eq_Nil_conv)
    next
      case (Cons d ds)
      then have "\<not> isspace d" by (simp add: dropWhile_eq_Cons_conv)
      with Cons show ?thesis by simp
    qed
    with True Cons show ?thesis by (simp add: isspace_def)
  qed
qed

lemma str_rstrip_append:
  "str_rstrip (a @ b) = (if \<forall>c \<in> set b. isspace c then str_rstrip a else a @ str_rstrip b)"
  by (simp add: str_rstrip_def dropWhile_append)

lemma str_rstrip_Nil_iff: "str_rstrip b = [] \<longleftrightarrow> (\<forall>c \<in> set b. isspace c)"
  by (simp add: str_rstrip_def)

lemma str_rstrip_clean: "clean_word w \<Longrightarrow> str_rstrip w = w"
proof -
  assume "clean_word w"
  then have "rev w \<noteq> []" and "\<not> isspace (hd (rev w))"
    by (auto simp: clean_word_def hd_rev)
  then have "dropWhile isspace (rev w) = rev w"
    by (cases "rev w") auto
  then show ?thesis by (simp add: str_rstrip_def)
qed

lemma str_join_clean_nonempty:
  "ws \<noteq> [] \<Longrightarrow> \<forall>w \<in> set ws. clean_word w \<Longrightarrow> str_join sep ws \<noteq> []"
  by (cases ws) (auto simp: str_join_Cons clean_word_def)

lemma rstrip_re_sub_ws:
  "str_rstrip (re_sub_ws (dropWhile isspace s)) = str_join '' '' (str_split s)"
proof (induction s rule: str_split.induct)
  case (1 s)
  define s1 where "s1 = dropWhile isspace s"
  show ?case
  proof (cases "s1 = []")
    case True
    then have "dropWhile isspace s = []" by (simp add: s1_def)
    then show ?thesis
      by (simp add: str_split.simps [of s] str_rstrip_def del: dropWhile_eq_Nil_conv)
  next
    case False
    define w where "w = takeWhile (\<lambda>c. \<not> isspace c) s1"
    define r where "r = dropWhile (\<lambda>c. \<not> isspace c) s1"
    have ne: "dropWhile isspace s \<noteq> []" using False by (simp add: s1_def)
    have w: "clean_word w" unfolding w_def s1_def by (rule head_word_clean [OF ne])
    have s1: "s1 = w @ r" by (simp add: w_def r_def)
    have split: "str_split s = w # str_split r"
      unfolding w_def r_def s1_def by (rule str_split_unfold [OF ne])
    have IH: "str_rstrip (re_sub_ws (dropWhile isspace r)) = str_join '' '' (str_split r)"
      using "1.IH" [OF refl ne] by (simp add: r_def s1_def)
    have resub: "re_sub_ws s1 = w @ re_sub_ws r"
      unfolding s1 using w by (intro re_sub_ws_word) (simp add: clean_word_def)
    show ?thesis
    proof (cases r)
      case Nil
      with resub split w show ?thesis
        by (simp add: s1_def [symmetric] str_split_Nil str_rstrip_clean)
    next
      case (Cons c r')
      have "isspace c" using Cons [unfolded r_def] by (simp add: dropWhile_eq_Cons_conv)
      then have rr: "re_sub_ws r = CHR '' '' # re_sub_ws (dropWhile isspace r)"
        using Cons by simp
      show ?thesis
      proof (cases "str_split r")
        case Nil
        with IH have "\<forall>c \<in> set (re_sub_ws (dropWhile isspace r)). isspace c"
          by (simp add: str_rstrip_Nil_iff)
        then have "\<forall>c \<in> set (re_sub_ws r). isspace c"
          by (simp add: rr isspace_def)
        with resub split Nil w show ?thesis
          by (simp add: s1_def [symmetric] str_rstrip_append str_rstrip_clean)
      next
        case (Cons v vs)
        have "str_join '' '' (str_split r) \<noteq> []"
          by (rule str_join_clean_nonempty) (auto simp: Cons intro: str_split_clean [of _ r, unfolded Cons])
        with IH have nall: "\<not> (\<forall>c \<in> set (re_sub_ws (dropWhile isspace r)). isspace c)"
          by (simp add: str_rstrip_Nil_iff [symmetric])
        have "str_rstrip ('' '' @ re_sub_ws (dropWhile isspace r))
                = '' '' @ str_rstrip (re_sub_ws (dropWhile isspace r))"
          by (subst str_rstrip_append) (simp only: nall if_False)
        then have "str_rstrip (re_sub_ws r) = CHR '' '' # str_join '' '' (str_split r)"
          by (simp add: rr IH)
        moreover have nall2: "\<not> (\<forall>c \<in> set (re_sub_ws r). isspace c)"
          using nall by (simp add: rr)
        have "str_rstrip (w @ re_sub_ws r) = w @ str_rstrip (re_sub_ws r)"
          by (subst str_rstrip_append) (simp only: nall2 if_False)
        ultimately show ?thesis
          by (simp add: s1_def [symmetric] resub split Cons)
      qed
    qed
  qed
qed

lemma normalize_whitespace_join_split:
  "normalize_whitespace text = str_join '' '' (str_split text)"
  by (simp add: normalize_whitespace_def str_strip_def str_lstrip_def
      re_sub_ws_lstrip rstrip_re_sub_ws)

section \<open>The chunker: blocks of words\<close>

text \<open>
  The chunks are the joined blocks of \<open>chunk_blocks\<close>. As long as \<open>current_count\<close> is
  the length of \<open>current_chunk\<close> and below the limit, the blocks concatenate to the words,
  none is longer than the limit, all but the last have the length of the limit, and their
  number is the rounded-up quotient.
\<close>

lemma chunk_loop_blocks:
  "chunk_loop m ws cur cnt = map (str_join '' '') (chunk_blocks m ws cur cnt)"
  by (induction ws arbitrary: cur cnt) (simp_all add: Let_def)

lemma chunk_blocks_concat: "concat (chunk_blocks m ws cur cnt) = cur @ ws"
  by (induction ws arbitrary: cur cnt) (simp_all add: Let_def)

lemma chunk_blocks_nonempty: "b \<in> set (chunk_blocks m ws cur cnt) \<Longrightarrow> b \<noteq> []"
  by (induction ws arbitrary: cur cnt) (auto simp: Let_def split: if_splits)

lemma chunk_blocks_le:
  "cnt = int (length cur) \<Longrightarrow> cnt < m \<Longrightarrow> b \<in> set (chunk_blocks m ws cur cnt)
     \<Longrightarrow> int (length b) \<le> m"
proof (induction ws arbitrary: cur cnt)
  case Nil
  then show ?case by (auto split: if_splits)
next
  case (Cons w ws)
  show ?case
  proof (cases "cnt + 1 \<ge> m")
    case True
    with Cons.prems have "b = cur @ [w] \<or> b \<in> set (chunk_blocks m ws [] 0)"
      by (simp add: Let_def)
    then show ?thesis
    proof
      assume "b = cur @ [w]"
      with Cons.prems True show ?thesis by simp
    next
      assume "b \<in> set (chunk_blocks m ws [] 0)"
      with Cons.IH [of 0 "[]"] Cons.prems show ?thesis by simp
    qed
  next
    case False
    with Cons.prems have "b \<in> set (chunk_blocks m ws (cur @ [w]) (cnt + 1))"
      by (simp add: Let_def)
    with Cons.IH [of "cnt + 1" "cur @ [w]"] Cons.prems False show ?thesis by simp
  qed
qed

lemma chunk_blocks_full:
  "cnt = int (length cur) \<Longrightarrow> cnt < m \<Longrightarrow> b \<in> set (butlast (chunk_blocks m ws cur cnt))
     \<Longrightarrow> int (length b) = m"
proof (induction ws arbitrary: cur cnt)
  case Nil
  then show ?case by (auto split: if_splits)
next
  case (Cons w ws)
  show ?case
  proof (cases "cnt + 1 \<ge> m")
    case True
    with Cons.prems have "b = cur @ [w] \<or> b \<in> set (butlast (chunk_blocks m ws [] 0))"
      by (auto simp: Let_def split: if_splits)
    then show ?thesis
    proof
      assume "b = cur @ [w]"
      with Cons.prems True show ?thesis by simp
    next
      assume "b \<in> set (butlast (chunk_blocks m ws [] 0))"
      with Cons.IH [of 0 "[]"] Cons.prems show ?thesis by simp
    qed
  next
    case False
    with Cons.prems have "b \<in> set (butlast (chunk_blocks m ws (cur @ [w]) (cnt + 1)))"
      by (simp add: Let_def)
    with Cons.IH [of "cnt + 1" "cur @ [w]"] Cons.prems False show ?thesis by simp
  qed
qed

lemma chunk_blocks_length:
  "cnt = int (length cur) \<Longrightarrow> cnt < m
     \<Longrightarrow> int (length (chunk_blocks m ws cur cnt)) = (cnt + int (length ws) + m - 1) div m"
proof (induction ws arbitrary: cur cnt)
  case Nil
  show ?case
  proof (cases "cur = []")
    case True
    with Nil show ?thesis by simp
  next
    case False
    with Nil have "0 < cnt" by simp
    with Nil have "(cnt + m - 1) div m = 1"
      by (intro int_div_pos_eq [where r = "cnt - 1"]) simp_all
    with False show ?thesis by simp
  qed
next
  case (Cons w ws)
  show ?case
  proof (cases "cnt + 1 \<ge> m")
    case True
    with Cons.prems have m: "cnt + 1 = m" and pos: "0 < m" by simp_all
    have "int (length (chunk_blocks m (w # ws) cur cnt))
            = 1 + int (length (chunk_blocks m ws [] 0))"
      using True by (simp add: Let_def)
    also have "\<dots> = 1 + (int (length ws) + m - 1) div m"
      using Cons.IH [of 0 "[]"] pos by simp
    also have "\<dots> = (cnt + int (length (w # ws)) + m - 1) div m"
    proof -
      have e: "cnt + int (length (w # ws)) + m - 1 = (int (length ws) + m - 1) + m"
        using m by simp
      have "((int (length ws) + m - 1) + m) div m = (int (length ws) + m - 1) div m + 1"
        using pos by (subst div_add_self2) simp_all
      then show ?thesis by (simp only: e)
    qed
    finally show ?thesis .
  next
    case False
    then have "int (length (chunk_blocks m (w # ws) cur cnt))
                 = int (length (chunk_blocks m ws (cur @ [w]) (cnt + 1)))"
      by (simp add: Let_def)
    also have "\<dots> = (cnt + 1 + int (length ws) + m - 1) div m"
      using Cons.IH [of "cnt + 1" "cur @ [w]"] Cons.prems False by simp
    finally show ?thesis by (simp add: algebra_simps)
  qed
qed

lemma ceiling_div_int:
  fixes n m :: int
  assumes "0 < m"
  shows "\<lceil>real_of_int n / real_of_int m\<rceil> = (n + m - 1) div m"
proof -
  define q where "q = (n + m - 1) div m"
  define r where "r = (n + m - 1) mod m"
  have r: "0 \<le> r" "r < m" using assms by (simp_all add: r_def)
  have "n + m - 1 = m * q + r" by (simp add: q_def r_def)
  then have "- n = m * (- q) + (m - 1 - r)" by (simp add: algebra_simps)
  then have "- n div m = - q"
    using r by (intro int_div_pos_eq [where r = "m - 1 - r"]) simp_all
  then show ?thesis by (simp add: ceiling_divide_eq_div q_def)
qed

lemma chunk_blocks_words_clean:
  "b \<in> set (chunk_blocks m (str_split text) [] 0) \<Longrightarrow> w \<in> set b \<Longrightarrow> clean_word w"
proof -
  assume b: "b \<in> set (chunk_blocks m (str_split text) [] 0)" and w: "w \<in> set b"
  then have "w \<in> set (concat (chunk_blocks m (str_split text) [] 0))" by auto
  then have "w \<in> set (str_split text)" by (simp add: chunk_blocks_concat)
  then show ?thesis by (rule str_split_clean)
qed

lemma chunk_text_blocks:
  "chunk_text text m = map (str_join '' '') (chunk_blocks m (str_split text) [] 0)"
  by (simp add: chunk_text_def chunk_loop_blocks)

lemma chunk_text_join:
  "str_join '' '' (chunk_text text m) = normalize_whitespace text"
proof -
  have "\<forall>b \<in> set (chunk_blocks m (str_split text) [] 0). b \<noteq> []"
    by (auto dest: chunk_blocks_nonempty)
  then show ?thesis
    by (simp add: chunk_text_blocks str_join_concat chunk_blocks_concat
        normalize_whitespace_join_split)
qed

lemma chunk_text_word_count:
  assumes "b \<in> set (chunk_blocks m (str_split text) [] 0)"
  shows "str_split (str_join '' '' b) = b"
  using assms by (intro str_split_join) (auto dest: chunk_blocks_words_clean)

section \<open>The shape of a normalized text\<close>

lemma clean_successively:
  "\<forall>c \<in> set w. \<not> isspace c \<Longrightarrow> successively (\<lambda>a b. \<not> (isspace a \<and> isspace b)) w"
  by (induction w) (auto simp: successively_Cons)

lemma str_join_shape:
  assumes "\<forall>w \<in> set ws. clean_word w"
  shows "successively (\<lambda>a b. \<not> (isspace a \<and> isspace b)) (str_join '' '' ws)
       \<and> (\<forall>c \<in> set (str_join '' '' ws). isspace c \<longrightarrow> c = CHR '' '')
       \<and> (ws \<noteq> [] \<longrightarrow> \<not> isspace (hd (str_join '' '' ws)) \<and> \<not> isspace (last (str_join '' '' ws)))"
  using assms
proof (induction ws)
  case Nil
  show ?case by simp
next
  case (Cons w ws)
  then have w: "clean_word w" and ws: "\<forall>w \<in> set ws. clean_word w" by auto
  note IH = Cons.IH [OF ws]
  from w have wne: "w \<noteq> []" and wc: "\<forall>c \<in> set w. \<not> isspace c"
    by (auto simp: clean_word_def)
  from wne wc have hw: "\<not> isspace (hd w)" and lw: "\<not> isspace (last w)" by auto
  show ?case
  proof (cases ws)
    case Nil
    then have e: "str_join '' '' (w # ws) = w" by simp
    have s: "successively (\<lambda>a b. \<not> (isspace a \<and> isspace b)) w"
      by (rule clean_successively [OF wc])
    show ?thesis unfolding e using s wc hw lw by blast
  next
    case (Cons v vs)
    then have ne: "ws \<noteq> []" by simp
    have jne: "str_join '' '' ws \<noteq> []"
      using ne ws by (rule str_join_clean_nonempty)
    have eq: "str_join '' '' (w # ws) = w @ CHR '' '' # str_join '' '' ws"
      using ne by (simp add: str_join_Cons)
    have "successively (\<lambda>a b. \<not> (isspace a \<and> isspace b)) (w @ CHR '' '' # str_join '' '' ws)"
      using IH ne jne wne lw clean_successively [OF wc]
      by (simp add: successively_append_iff successively_Cons)
    moreover have "\<forall>c \<in> set (w @ CHR '' '' # str_join '' '' ws). isspace c \<longrightarrow> c = CHR '' ''"
      using IH wc by auto
    moreover have "\<not> isspace (hd (w @ CHR '' '' # str_join '' '' ws))"
      using wne hw by simp
    moreover have "\<not> isspace (last (w @ CHR '' '' # str_join '' '' ws))"
      using IH ne jne by simp
    ultimately show ?thesis by (simp only: eq) simp
  qed
qed

lemma normalize_whitespace_shape:
  "normalize_whitespace text = str_join '' '' (str_split text)
   \<and> (\<forall>c \<in> set (normalize_whitespace text). isspace c \<longrightarrow> c = CHR '' '')
   \<and> successively (\<lambda>a b. \<not> (isspace a \<and> isspace b)) (normalize_whitespace text)
   \<and> (normalize_whitespace text \<noteq> [] \<longrightarrow>
        \<not> isspace (hd (normalize_whitespace text)) \<and> \<not> isspace (last (normalize_whitespace text)))
   \<and> CHR 0x0A \<notin> set (normalize_whitespace text)
   \<and> str_split (normalize_whitespace text) = str_split text
   \<and> normalize_whitespace (normalize_whitespace text) = normalize_whitespace text"
proof -
  let ?ws = "str_split text"
  have clean: "\<forall>w \<in> set ?ws. clean_word w" by (auto intro: str_split_clean)
  note shape = str_join_shape [OF clean]
  have eq: "normalize_whitespace text = str_join '' '' ?ws"
    by (rule normalize_whitespace_join_split)
  have ne: "str_join '' '' ?ws \<noteq> [] \<longrightarrow> ?ws \<noteq> []" by auto
  have nl: "isspace (CHR 0x0A)" by (simp add: isspace_def)
  have "CHR 0x0A \<notin> set (str_join '' '' ?ws)"
  proof
    assume "CHR 0x0A \<in> set (str_join '' '' ?ws)"
    with shape nl have "CHR 0x0A = CHR '' ''" by blast
    then show False by simp
  qed
  moreover have sp: "str_split (str_join '' '' ?ws) = ?ws"
    by (rule str_split_join [OF clean])
  moreover have "normalize_whitespace (str_join '' '' ?ws) = str_join '' '' ?ws"
    by (simp add: normalize_whitespace_join_split sp)
  ultimately show ?thesis using shape ne unfolding eq by blast
qed

section \<open>The generator and the list of its chunks\<close>

lemma list_of_generator_Finished: "list_of_generator limit Finished = []"
  by (simp add: list_of_generator.simps)

lemma list_of_generator_loop:
  "list_of_generator limit (Running ws cur cnt) = chunk_loop limit ws cur cnt"
proof (induction ws arbitrary: cur cnt)
  case Nil
  show ?case
    by (simp add: list_of_generator.simps [of _ "Running [] cur cnt"] list_of_generator_Finished)
next
  case (Cons w ws)
  show ?case
  proof (cases "cnt + 1 \<ge> limit")
    case True
    then show ?thesis
      using Cons.IH [of "[]" 0]
      by (simp add: list_of_generator.simps [of _ "Running (w # ws) cur cnt"] Let_def)
  next
    case False
    have "list_of_generator limit (Running (w # ws) cur cnt)
            = list_of_generator limit (Running ws (cur @ [w]) (cnt + 1))"
      using False
      by (simp add: list_of_generator.simps [of _ "Running (w # ws) cur cnt"]
          list_of_generator.simps [of _ "Running ws (cur @ [w]) (cnt + 1)"] Let_def)
    with False Cons.IH [of "cur @ [w]" "cnt + 1"] show ?thesis by (simp add: Let_def)
  qed
qed

section \<open>Enumeration\<close>

text \<open>
  An entry that passes the test of the drivers has a dot in its name, so the pattern
  \<^verbatim>\<open>*.*\<close> of \<^verbatim>\<open>glob\<close> removes no entry the test would accept. With a flag that is never set,
  the front end produces the effects of the command line program.
\<close>

lemma started_files_append: "started_files (xs @ ys) = started_files xs @ started_files ys"
  by (induction xs rule: started_files.induct) simp_all

lemma records_append: "records (xs @ ys) = records xs @ records ys"
  by (induction xs rule: records.induct) simp_all

lemma requests_append: "requests (xs @ ys) = requests xs @ requests ys"
  by (induction xs rule: requests.induct) simp_all

lemma suffix_needs_dot: "suffix fname \<noteq> [] \<Longrightarrow> CHR ''.'' \<in> set fname"
  by (auto simp: suffix_def str_rfind_def Let_def split: if_splits)

lemma is_supported_input_dot: "is_supported_input e \<Longrightarrow> CHR ''.'' \<in> set (entry_name e)"
proof -
  assume "is_supported_input e"
  then have "str_lower (suffix (entry_name e)) \<noteq> []"
    by (auto simp: is_supported_input_def)
  then have "suffix (entry_name e) \<noteq> []" by (auto simp: str_lower_def)
  then show ?thesis by (rule suffix_needs_dot)
qed

lemma filter_glob:
  "filter is_supported_input (glob_star_dot_star listing) = filter is_supported_input listing"
  by (induction listing) (auto simp: glob_star_dot_star_def dest: is_supported_input_dot)

lemma cli_files_filter:
  "cli_files endpoint a (filter is_supported_input es) p = cli_files endpoint a es p"
  by (induction es arbitrary: p) (auto split: prod.splits)

lemma cli_chunks_started:
  "started_files (fst (snd (cli_chunks endpoint a fname i chunks p))) = []"
  by (induction chunks arbitrary: i p) (auto simp: posted_def case_prod_beta split: sum.splits)

lemma cli_send_text_started:
  "started_files (fst (snd (cli_send_text endpoint a fname text p))) = []"
  by (auto simp: cli_send_text_def Let_def posted_def cli_chunks_started split: sum.splits)

lemma cli_process_file_started:
  "started_files (fst (cli_process_file endpoint a e p)) = [entry_name e]"
proof -
  have "started_files (fst (snd (cli_file_body endpoint a e p))) = []"
    by (auto simp: cli_file_body_def cli_send_text_started split: sum.splits)
  then show ?thesis
    by (auto simp: cli_process_file_def started_files_append split: prod.splits option.splits)
qed

lemma cli_files_started:
  "started_files (fst (cli_files endpoint a es p)) = map entry_name (filter is_supported_input es)"
proof (induction es arbitrary: p)
  case Nil
  show ?case by simp
next
  case (Cons e es)
  show ?case
  proof (cases "is_supported_input e")
    case False
    with Cons.IH show ?thesis by simp
  next
    case True
    obtain evs p' where f: "cli_process_file endpoint a e p = (evs, p')"
      by (cases "cli_process_file endpoint a e p")
    obtain evs' p'' where r: "cli_files endpoint a es p' = (evs', p'')"
      by (cases "cli_files endpoint a es p'")
    from f have "started_files evs = [entry_name e]"
      using cli_process_file_started [of endpoint a e p] by simp
    moreover from r have "started_files evs' = map entry_name (filter is_supported_input es)"
      using Cons.IH [of p'] by simp
    ultimately show ?thesis using True f r by (simp add: started_files_append)
  qed
qed

lemma gui_chunks_never_stopped:
  assumes "\<forall>n. \<not> stop_processing n" and "calls p = calls q"
  shows "fst (gui_chunks endpoint stop_processing a fname i chunks p)
           = fst (cli_chunks endpoint a fname i chunks q)
       \<and> fst (snd (gui_chunks endpoint stop_processing a fname i chunks p))
           = fst (snd (cli_chunks endpoint a fname i chunks q))
       \<and> calls (snd (snd (gui_chunks endpoint stop_processing a fname i chunks p)))
           = calls (snd (snd (cli_chunks endpoint a fname i chunks q)))"
  using assms(2)
proof (induction chunks arbitrary: i p q)
  case Nil
  then show ?case by simp
next
  case (Cons c cs)
  have inf: "infer endpoint a (calls p) c = infer endpoint a (calls q) c"
    using Cons.prems by simp
  have c: "calls (called (checked p)) = calls (called q)"
    using Cons.prems by (simp add: called_def checked_def)
  have ns: "\<not> stop_processing (checks p)" using assms(1) by simp
  show ?case
  proof (cases "infer endpoint a (calls q) c")
    case (Inl ex)
    with inf ns c show ?thesis by simp
  next
    case (Inr response)
    with inf ns Cons.IH [OF c, of "Suc i"] show ?thesis
      by (simp add: case_prod_beta)
  qed
qed

lemma gui_send_text_never_stopped:
  assumes "\<forall>n. \<not> stop_processing n" and "calls p = calls q"
  shows "fst (gui_send_text endpoint stop_processing a fname text p)
           = fst (cli_send_text endpoint a fname text q)
       \<and> fst (snd (gui_send_text endpoint stop_processing a fname text p))
           = fst (snd (cli_send_text endpoint a fname text q))
       \<and> calls (snd (snd (gui_send_text endpoint stop_processing a fname text p)))
           = calls (snd (snd (cli_send_text endpoint a fname text q)))"
proof (cases "int (length (str_split text)) \<le> max_words a")
  case True
  have "infer endpoint a (calls p) text = infer endpoint a (calls q) text"
    using assms(2) by simp
  with True assms(2) show ?thesis
    by (auto simp: gui_send_text_def cli_send_text_def called_def split: sum.splits)
next
  case False
  with gui_chunks_never_stopped [OF assms] show ?thesis
    by (simp add: gui_send_text_def cli_send_text_def)
qed

lemma gui_process_file_never_stopped:
  assumes "\<forall>n. \<not> stop_processing n" and "calls p = calls q"
  shows "fst (gui_process_file endpoint stop_processing a e p) = fst (cli_process_file endpoint a e q)
       \<and> calls (snd (gui_process_file endpoint stop_processing a e p))
           = calls (snd (cli_process_file endpoint a e q))"
proof -
  have "fst (gui_file_body endpoint stop_processing a e p) = fst (cli_file_body endpoint a e q)
       \<and> fst (snd (gui_file_body endpoint stop_processing a e p))
           = fst (snd (cli_file_body endpoint a e q))
       \<and> calls (snd (snd (gui_file_body endpoint stop_processing a e p)))
           = calls (snd (snd (cli_file_body endpoint a e q)))"
    using gui_send_text_never_stopped [OF assms] assms(2)
    by (auto simp: gui_file_body_def cli_file_body_def split: sum.splits)
  then show ?thesis
    by (cases "gui_file_body endpoint stop_processing a e p";
        cases "cli_file_body endpoint a e q")
       (auto simp: gui_process_file_def cli_process_file_def split: option.splits)
qed

lemma gui_files_never_stopped:
  assumes "\<forall>n. \<not> stop_processing n" and "calls p = calls q"
  shows "fst (gui_files endpoint stop_processing a es p) = fst (cli_files endpoint a es q)
       \<and> calls (snd (gui_files endpoint stop_processing a es p))
           = calls (snd (cli_files endpoint a es q))"
  using assms(2)
proof (induction es arbitrary: p q)
  case Nil
  then show ?case by simp
next
  case (Cons e es)
  have c: "calls (checked p) = calls q" using Cons.prems by (simp add: checked_def)
  have ns: "\<not> stop_processing (checks p)" using assms(1) by simp
  show ?case
  proof (cases "is_supported_input e")
    case False
    with ns Cons.IH [OF c] show ?thesis by simp
  next
    case True
    note f = gui_process_file_never_stopped [OF assms(1) c, of endpoint a e]
    from f have c': "calls (snd (gui_process_file endpoint stop_processing a e (checked p)))
                       = calls (snd (cli_process_file endpoint a e q))" by simp
    from True ns f Cons.IH [OF c'] show ?thesis
      by (simp add: case_prod_beta)
  qed
qed

lemma process_documents_never_stopped:
  "\<forall>n. \<not> stop_processing n \<Longrightarrow>
     Touched # process_documents endpoint stop_processing a listing
       = main endpoint a listing @ [Completed]"
  using gui_files_never_stopped [of stop_processing "\<lparr>calls = 0, checks = 0\<rparr>"
      "\<lparr>calls = 0, checks = 0\<rparr>" endpoint a "glob_star_dot_star listing"]
  by (simp add: process_documents_def main_def)

lemma main_filter:
  "main endpoint a (filter is_supported_input listing) = main endpoint a listing"
proof -
  have "cli_files endpoint a (glob_star_dot_star (filter is_supported_input listing)) p
          = cli_files endpoint a (glob_star_dot_star listing) p" for p
    using cli_files_filter [of endpoint a "glob_star_dot_star (filter is_supported_input listing)" p]
      cli_files_filter [of endpoint a "glob_star_dot_star listing" p]
    by (simp add: filter_glob)
  then show ?thesis by (simp add: main_def)
qed

lemma main_started:
  "started_files (main endpoint a listing) = map entry_name (filter is_supported_input listing)"
  by (simp add: main_def cli_files_started filter_glob)

section \<open>Dispatch\<close>

lemma cli_chunks_answered:
  assumes "length rs = length chunks"
    and "\<forall>j < length chunks. infer endpoint a (calls p + j) (chunks ! j) = Inr (rs ! j)"
  shows "cli_chunks endpoint a fname i chunks p =
           (None,
            concat (map (\<lambda>j. [posted a (chunks ! j), Appended (chunk_header fname (i + j)) (rs ! j)])
                      [0..<length chunks]),
            p\<lparr>calls := calls p + length chunks\<rparr>)"
  using assms
proof (induction chunks arbitrary: i p rs)
  case Nil
  then show ?case by simp
next
  case (Cons c cs)
  then obtain r rs' where rs: "rs = r # rs'" and len: "length rs' = length cs"
    by (cases rs) auto
  from Cons.prems(2) have first: "infer endpoint a (calls p) c = Inr r"
    by (auto simp: rs)
  have rest: "\<forall>j < length cs. infer endpoint a (calls (called p) + j) (cs ! j) = Inr (rs' ! j)"
  proof (intro allI impI)
    fix j assume "j < length cs"
    then have "Suc j < length (c # cs)" by simp
    with Cons.prems(2) have "infer endpoint a (calls p + Suc j) ((c # cs) ! Suc j) = Inr (rs ! Suc j)"
      by blast
    then show "infer endpoint a (calls (called p) + j) (cs ! j) = Inr (rs' ! j)"
      by (simp add: rs called_def)
  qed
  have idx: "[0..<length (c # cs)] = 0 # map Suc [0..<length cs]"
    by (simp add: upt_conv_Cons map_Suc_upt del: upt_Suc)
  show ?case
    using first Cons.IH [OF len rest, of "Suc i"]
    by (simp only: idx) (simp add: rs called_def comp_def)
qed

lemma str_split_whitespace: "\<forall>c \<in> set raw. isspace c \<Longrightarrow> str_split raw = []"
  by (simp add: str_split.simps [of raw])

lemma file_header_unlabelled: "file_header fname \<noteq> chunk_header fname i"
  by (simp add: file_header_def chunk_header_def)

section \<open>Failures of the endpoint\<close>

text \<open>
  A failure that the library reports as a \<^verbatim>\<open>RequestException\<close> comes back as a string.
  A JSON object without the member \<^verbatim>\<open>response\<close> is not such a failure: the \<^verbatim>\<open>KeyError\<close>
  leaves \<^verbatim>\<open>process_text_with_ollama\<close> and reaches the \<^verbatim>\<open>except Exception\<close> clause of the
  driver, which reports it and goes on with the next file.
\<close>

lemma infer_transport_failure:
  assumes "transport_failure (endpoint n (request_for a body)) (req_url (request_for a body)) = Some msg"
  shows "infer endpoint a n body = Inr (''Error processing chunk: '' @ msg)"
proof (cases "endpoint n (request_for a body)")
  case (PostRaised ex)
  with assms show ?thesis
    by (cases ex)
       (simp_all add: transport_failure_def infer_def process_text_with_ollama_def
          request_for_def Let_def)
next
  case (Response status reason content)
  with assms show ?thesis
    by (cases content)
       (auto simp: transport_failure_def infer_def process_text_with_ollama_def
          request_for_def Let_def raise_for_status_def response_json_response_def
          split: if_splits)
qed

lemma missing_response_field:
  "infer (replying (Response 200 ''OK'' (JsonObject []))) a n body
     = Inl (KeyError ([CHR 0x27] @ ''response'' @ [CHR 0x27]))"
  by (simp add: infer_def process_text_with_ollama_def replying_def raise_for_status_def
      response_json_response_def Let_def)

section \<open>Cancellation\<close>

lemma gui_files_stopped:
  "stop_processing (checks p) \<Longrightarrow>
     gui_files endpoint stop_processing a es p =
       (if es = [] then ([], p) else ([Interrupted], checked p))"
  by (cases es) simp_all

lemma gui_chunks_stopped:
  "stop_processing (checks p) \<Longrightarrow>
     gui_chunks endpoint stop_processing a fname i chunks p =
       (if chunks = [] then (None, [], p) else (None, [Interrupted], checked p))"
  by (cases chunks) simp_all

lemma gui_chunks_checks:
  "checks p \<le> checks (snd (snd (gui_chunks endpoint stop_processing a fname i chunks p)))"
proof (induction chunks arbitrary: i p)
  case Nil
  show ?case by simp
next
  case (Cons c cs)
  have "checks p \<le> checks (called (checked p))" by (simp add: called_def checked_def)
  also have "\<dots> \<le> checks (snd (snd (gui_chunks endpoint stop_processing a fname (Suc i) cs
                                         (called (checked p)))))"
    by (rule Cons.IH)
  finally show ?case
    by (auto simp: case_prod_beta called_def checked_def split: sum.splits)
qed

lemma gui_process_file_checks:
  "checks p \<le> checks (snd (gui_process_file endpoint stop_processing a e p))"
proof -
  have "checks p \<le> checks (snd (snd (gui_send_text endpoint stop_processing a fname body p)))"
    for fname body
    using gui_chunks_checks [of p endpoint stop_processing a fname 1]
    by (auto simp: gui_send_text_def Let_def called_def split: sum.splits)
  then have "checks p \<le> checks (snd (snd (gui_file_body endpoint stop_processing a e p)))"
    by (auto simp: gui_file_body_def split: sum.splits)
  then show ?thesis
    by (cases "gui_file_body endpoint stop_processing a e p")
       (auto simp: gui_process_file_def split: option.splits)
qed

lemma gui_chunks_recorded:
  "fst (gui_chunks endpoint stop_processing a fname i chunks p) = None \<Longrightarrow>
     length (records (fst (snd (gui_chunks endpoint stop_processing a fname i chunks p))))
       = length (requests (fst (snd (gui_chunks endpoint stop_processing a fname i chunks p))))"
proof (induction chunks arbitrary: i p)
  case Nil
  show ?case by simp
next
  case (Cons c cs)
  show ?case
  proof (cases "stop_processing (checks p)")
    case True
    then show ?thesis by simp
  next
    case False
    show ?thesis
    proof (cases "infer endpoint a (calls p) c")
      case (Inl ex)
      with False Cons.prems show ?thesis by simp
    next
      case (Inr response)
      with False Cons.prems
      have "fst (gui_chunks endpoint stop_processing a fname (Suc i) cs (called (checked p))) = None"
        by (simp add: case_prod_beta)
      from Cons.IH [OF this] False Inr show ?thesis
        by (simp add: case_prod_beta posted_def)
    qed
  qed
qed

section \<open>The output file\<close>

text \<open>
  The loops over the directory only post requests, append records and report; they
  never create or clear the output file. After such effects the file holds what it held
  before, followed by the records in order.
\<close>

lemma cli_chunks_worker:
  "ev \<in> set (fst (snd (cli_chunks endpoint a fname i chunks p))) \<Longrightarrow> worker_event ev"
  by (induction chunks arbitrary: i p)
     (auto simp: posted_def case_prod_beta split: sum.splits)

lemma gui_chunks_worker:
  "ev \<in> set (fst (snd (gui_chunks endpoint stop_processing a fname i chunks p))) \<Longrightarrow> worker_event ev"
  by (induction chunks arbitrary: i p)
     (auto simp: posted_def case_prod_beta split: sum.splits if_splits)

lemma cli_process_file_worker:
  "ev \<in> set (fst (cli_process_file endpoint a e p)) \<Longrightarrow> worker_event ev"
proof -
  have "ev \<in> set (fst (snd (cli_file_body endpoint a e p))) \<Longrightarrow> worker_event ev"
    by (auto simp: cli_file_body_def cli_send_text_def Let_def posted_def
        dest: cli_chunks_worker split: sum.splits if_splits)
  then show "ev \<in> set (fst (cli_process_file endpoint a e p)) \<Longrightarrow> worker_event ev"
    by (cases "cli_file_body endpoint a e p")
       (auto simp: cli_process_file_def split: option.splits)
qed

lemma gui_process_file_worker:
  "ev \<in> set (fst (gui_process_file endpoint stop_processing a e p)) \<Longrightarrow> worker_event ev"
proof -
  have "ev \<in> set (fst (snd (gui_file_body endpoint stop_processing a e p))) \<Longrightarrow> worker_event ev"
    by (auto simp: gui_file_body_def gui_send_text_def Let_def posted_def
        dest: gui_chunks_worker split: sum.splits if_splits)
  then show "ev \<in> set (fst (gui_process_file endpoint stop_processing a e p)) \<Longrightarrow> worker_event ev"
    by (cases "gui_file_body endpoint stop_processing a e p")
       (auto simp: gui_process_file_def split: option.splits)
qed

lemma cli_files_worker:
  "ev \<in> set (fst (cli_files endpoint a es p)) \<Longrightarrow> worker_event ev"
  by (induction es arbitrary: p)
     (auto simp: case_prod_beta dest: cli_process_file_worker split: if_splits)

lemma gui_files_worker:
  "ev \<in> set (fst (gui_files endpoint stop_processing a es p)) \<Longrightarrow> worker_event ev"
  by (induction es arbitrary: p)
     (auto simp: case_prod_beta dest: gui_process_file_worker split: if_splits)

lemma process_documents_worker:
  "ev \<in> set (process_documents endpoint stop_processing a listing) \<Longrightarrow> worker_event ev"
  by (auto simp: process_documents_def dest: gui_files_worker)

lemma out_txt_after_worker:
  "\<forall>ev \<in> set evs. worker_event ev \<Longrightarrow>
     out_txt_after (Some content) evs
       = Some (content @ concat (map (\<lambda>(header, response). header @ response) (records evs)))"
proof (induction evs arbitrary: content)
  case Nil
  show ?case by (simp add: out_txt_after_def)
next
  case (Cons ev evs)
  then have IH: "out_txt_after (Some c) evs
       = Some (c @ concat (map (\<lambda>(header, response). header @ response) (records evs)))" for c
    by simp
  from Cons.prems have "worker_event ev" by simp
  then show ?case
    using IH by (cases ev) (simp_all add: out_txt_after_def)
qed

lemma count_list_worker:
  "\<forall>ev \<in> set evs. worker_event ev \<Longrightarrow> count_list evs Truncated = 0"
  by (induction evs) auto

section \<open>A limit below one\<close>

lemma chunk_loop_nonpositive:
  "limit \<le> 1 \<Longrightarrow> chunk_loop limit ws [] 0 = ws"
  by (induction ws) simp_all

section \<open>Instances\<close>

text \<open>
  Evaluations of the functions at the example inputs, used by the instances of the
  theorems below.
\<close>

lemmas table_defs =
  str_lower_def suffix_def str_rfind_def
  ascii_uppercase_def ascii_lowercase_def latin1_uppercase_def latin1_lowercase_def

lemma example_suffixes:
  "str_lower (suffix ''a.txt'') = ''.txt''"
  "str_lower (suffix ''b.txt'') = ''.txt''"
  "str_lower (suffix ''a.TXT'') = ''.txt''"
  "str_lower (suffix ''c.png'') = ''.png''"
  "str_lower (suffix ''out.txt'') = ''.txt''"
  by (simp_all add: table_defs)

lemma text_file_supported:
  "is_supported_input (text_file fname content) =
     (str_lower (suffix fname) \<in> set [''.txt'', ''.pdf'', ''.doc'', ''.docx'']
      \<and> fname \<noteq> ''out.txt'')"
  by (simp add: is_supported_input_def text_file_def)

lemma text_file_name: "entry_name (text_file fname content) = fname"
  by (simp add: text_file_def)

lemma text_file_extract:
  "str_lower (suffix fname) = ''.txt'' \<Longrightarrow> extract_text_from_file (text_file fname content) = Inr content"
  by (simp add: extract_text_from_file_def text_file_def)

lemma infer_answering: "infer (answering r) a n body = Inr r"
  by (simp add: infer_def process_text_with_ollama_def answering_def raise_for_status_def
      response_json_response_def Let_def)

lemma example_texts:
  "normalize_whitespace ''x  y'' = ''x y''"
  "normalize_whitespace ''x'' = ''x''"
  "normalize_whitespace ''x y'' = ''x y''"
  "str_split ''x y'' = [''x'', ''y'']"
  "str_split ''x'' = [''x'']"
  "chunk_text ''x y'' 1 = [''x'', ''y'']"
  "chunk_text ''x y'' 0 = [''x'', ''y'']"
  by (simp_all add: normalize_whitespace_join_split chunk_text_def str_split.simps isspace_def)

lemma max_words_example: "max_words (example_args limit) = limit"
  by (simp add: example_args_def)

lemma example_py_int:
  "py_int ''5'' = Some 5"
  "py_int ''0'' = Some 0"
  "py_int ''abc'' = None"
  by (simp_all add: py_int_def int_strip_def int_isspace_def is_digit_def digit_value_def)

lemma example_form_fields:
  "directory_var (example_form w) = ''docs''"
  "str_strip (prompt_text (example_form w)) = ''P''"
  "max_words_var (example_form w) = w"
  "model_var (example_form w) = ''m''"
  "api_url_var (example_form w) = ''u''"
  by (simp_all add: example_form_def str_strip_def str_lstrip_def str_rstrip_def isspace_def)

lemma text_file_glob:
  "glob_star_dot_star [text_file ''a.txt'' content] = [text_file ''a.txt'' content]"
  by (simp add: glob_star_dot_star_def text_file_name)

lemma example_cli_run:
  "max_words a = 5 \<Longrightarrow>
     main (answering ''R'') a [text_file ''a.txt'' ''x'']
       = [Touched, ProcessingFile ''a.txt'', posted a ''x'', Appended (file_header ''a.txt'') ''R'']"
  by (simp add: main_def text_file_glob text_file_supported example_suffixes
      cli_process_file_def cli_file_body_def text_file_extract cli_send_text_def example_texts
      infer_answering text_file_name)

lemma example_gui_run:
  "max_words a = 5 \<Longrightarrow>
     process_documents (answering ''R'') never_stopped a [text_file ''a.txt'' ''x'']
       = [ProcessingFile ''a.txt'', posted a ''x'', Appended (file_header ''a.txt'') ''R'', Completed]"
  by (simp add: process_documents_def text_file_glob text_file_supported example_suffixes
      gui_process_file_def gui_file_body_def text_file_extract gui_send_text_def example_texts
      infer_answering text_file_name never_stopped_def)

lemma example_gui_run_zero:
  "max_words a = 0 \<Longrightarrow>
     process_documents (answering ''R'') never_stopped a [text_file ''a.txt'' ''x y'']
       = [ProcessingFile ''a.txt'',
          posted a ''x'', Appended (chunk_header ''a.txt'' 1) ''R'',
          posted a ''y'', Appended (chunk_header ''a.txt'' 2) ''R'', Completed]"
  by (simp add: process_documents_def text_file_glob text_file_supported example_suffixes
      gui_process_file_def gui_file_body_def text_file_extract gui_send_text_def example_texts
      infer_answering text_file_name never_stopped_def numeral_2_eq_2)

lemma example_py_int_more:
  "py_int [CHR 0x1C, CHR ''5''] = None"
  "py_int ''- 5'' = None"
  "py_int '' -1_0 '' = Some (- 10)"
  by (simp_all add: py_int_def int_strip_def int_isspace_def is_digit_def digit_value_def)

lemma parse_args_rejects:
  "length (positionals cl) \<noteq> 3 \<Longrightarrow> parse_args cl = None"
  "list_ex (\<lambda>s. py_int s = None) (max_words_given cl) \<Longrightarrow> parse_args cl = None"
  by (auto simp: parse_args_def split: list.splits)

lemma parse_args_accepts:
  assumes "positionals cl = [d, p, u]"
    and "max_words_given cl = given @ [s]"
    and "\<not> list_ex (\<lambda>s. py_int s = None) (max_words_given cl)"
    and "py_int s = Some m"
    and "\<not> list_ex (\<lambda>t. t = None) (temperature_given cl)"
  shows "\<exists>a. parse_args cl = Some a \<and> max_words a = m
             \<and> directory a = d \<and> prompt a = p \<and> url a = u"
  using assms by (simp add: parse_args_def)

lemma example_command_lines:
  "parse_args (example_command_line [''docs'', ''P'', ''u''] [''0'']) = Some (example_args 0)"
  "positionals (example_command_line ps ws) = ps"
  "max_words_given (example_command_line ps ws) = ws"
  "temperature_given (example_command_line ps ws) = []"
  by (simp_all add: parse_args_def example_command_line_def example_args_def example_py_int)

section \<open>The claims\<close>

text \<open>
  C1 (as amended). For every text and every positive limit, the chunks of \<open>chunk_text\<close>
  joined by single spaces give the whitespace-normalized text (hence the text itself when
  the text is already normalized); every chunk has at most \<open>limit\<close> words; every chunk
  but the last has exactly \<open>limit\<close> words; the number of chunks is the ceiling of the
  number of words divided by \<open>limit\<close>; the empty text has no chunk.
\<close>

theorem chunk_text_partition:
  assumes "0 < limit"
  shows "str_join '' '' (chunk_text text limit) = normalize_whitespace text
       \<and> (normalize_whitespace text = text \<longrightarrow> str_join '' '' (chunk_text text limit) = text)
       \<and> (\<forall>c \<in> set (chunk_text text limit). int (length (str_split c)) \<le> limit)
       \<and> (\<forall>i. Suc i < length (chunk_text text limit) \<longrightarrow>
              int (length (str_split (chunk_text text limit ! i))) = limit)
       \<and> int (length (chunk_text text limit))
            = \<lceil>real (length (str_split text)) / real_of_int limit\<rceil>
       \<and> chunk_text [] limit = []"
proof -
  let ?bs = "chunk_blocks limit (str_split text) [] 0"
  have j: "str_join '' '' (chunk_text text limit) = normalize_whitespace text"
    by (rule chunk_text_join)
  have le: "\<forall>c \<in> set (chunk_text text limit). int (length (str_split c)) \<le> limit"
  proof
    fix c assume "c \<in> set (chunk_text text limit)"
    then obtain b where b: "b \<in> set ?bs" and c: "c = str_join '' '' b"
      by (auto simp: chunk_text_blocks)
    from b have "int (length b) \<le> limit"
      using assms by (intro chunk_blocks_le [of 0 "[]" limit b "str_split text"]) simp_all
    with b c show "int (length (str_split c)) \<le> limit"
      by (simp add: chunk_text_word_count)
  qed
  have full: "\<forall>i. Suc i < length (chunk_text text limit) \<longrightarrow>
              int (length (str_split (chunk_text text limit ! i))) = limit"
  proof (intro allI impI)
    fix i assume "Suc i < length (chunk_text text limit)"
    then have i: "Suc i < length ?bs" by (simp add: chunk_text_blocks)
    then have "butlast ?bs ! i = ?bs ! i" by (simp add: nth_butlast)
    moreover from i have "butlast ?bs ! i \<in> set (butlast ?bs)" by (intro nth_mem) simp
    ultimately have bl: "?bs ! i \<in> set (butlast ?bs)" by simp
    then have "int (length (?bs ! i)) = limit"
      using assms by (intro chunk_blocks_full [of 0 "[]" limit _ "str_split text"]) simp_all
    moreover from i have mem: "?bs ! i \<in> set ?bs" by simp
    have "str_split (str_join '' '' (?bs ! i)) = ?bs ! i"
      by (rule chunk_text_word_count [OF mem])
    ultimately show "int (length (str_split (chunk_text text limit ! i))) = limit"
      using i by (simp add: chunk_text_blocks)
  qed
  have "int (length ?bs) = (0 + int (length (str_split text)) + limit - 1) div limit"
    using assms by (intro chunk_blocks_length) simp_all
  then have len: "int (length (chunk_text text limit))
            = \<lceil>real (length (str_split text)) / real_of_int limit\<rceil>"
    using ceiling_div_int [OF assms, of "int (length (str_split text))"]
    by (simp add: chunk_text_blocks)
  have e: "chunk_text [] limit = []"
    by (simp add: chunk_text_def str_split_Nil)
  from j le full len e show ?thesis by simp
qed

text \<open>The statement at the text \<open>a  b c\<close> (two spaces after \<open>a\<close>) and the limit 2.\<close>

theorem chunk_text_partition_witness:
  "(0::int) < 2
   \<and> str_join '' '' (chunk_text ''a  b c'' 2) = ''a b c''
   \<and> chunk_text ''a  b c'' 2 = [''a b'', ''c'']
   \<and> int (length (chunk_text ''a  b c'' 2)) = \<lceil>real (length (str_split ''a  b c'')) / real_of_int 2\<rceil>"
proof -
  have h: "(0::int) < 2" by simp
  have n: "normalize_whitespace ''a  b c'' = ''a b c''"
    by (simp add: normalize_whitespace_def str_strip_def str_lstrip_def str_rstrip_def isspace_def)
  have c: "chunk_text ''a  b c'' 2 = [''a b'', ''c'']"
    by (simp add: chunk_text_def str_split.simps isspace_def)
  show ?thesis using chunk_text_partition [OF h, of "''a  b c''"] n c h by simp
qed

text \<open>
  C1 as first stated asks for the input text itself. A text with two spaces between two
  words is not given back.
\<close>

theorem chunk_text_join_counterexample:
  "str_join '' '' (chunk_text ''a  b'' 1) \<noteq> ''a  b''"
  by (simp add: chunk_text_def str_split.simps isspace_def)

text \<open>
  C2 (as amended). In the front end, a run that passes the checks of the input begins
  by creating and clearing \<^verbatim>\<open>out.txt\<close>; this is the only time the file is cleared, and all
  that follows are effects of the worker (every inference call among them). Whatever the
  file held before, it holds after the run exactly the records appended during the run.
  The command line program never clears the file: it only makes sure the file exists, and
  a file that held \<open>old\<close> before holds \<open>old\<close> followed by the records of the run after.
\<close>

theorem output_file_at_start:
  assumes "py_int (max_words_var form) = Some m"
    and "directory_var form \<noteq> []" and "str_strip (prompt_text form) \<noteq> []"
    and "model_var form \<noteq> []" and "api_url_var form \<noteq> []"
  shows "start_processing endpoint stop_processing form listing
           = Touched # Truncated
               # process_documents endpoint stop_processing (gui_args form m) listing
       \<and> (\<forall>ev \<in> set (process_documents endpoint stop_processing (gui_args form m) listing).
             worker_event ev)
       \<and> count_list (start_processing endpoint stop_processing form listing) Truncated = 1
       \<and> out_txt_after previous (start_processing endpoint stop_processing form listing)
           = Some (concat (map (\<lambda>(header, response). header @ response)
                (records (process_documents endpoint stop_processing (gui_args form m) listing))))
       \<and> Truncated \<notin> set (main endpoint a listing)
       \<and> out_txt_after (Some old) (main endpoint a listing)
           = Some (old @ concat (map (\<lambda>(header, response). header @ response)
                (records (main endpoint a listing))))"
proof -
  let ?docs = "process_documents endpoint stop_processing (gui_args form m) listing"
  have run: "start_processing endpoint stop_processing form listing = Touched # Truncated # ?docs"
    using assms by (simp add: start_processing_def)
  have worker: "\<forall>ev \<in> set ?docs. worker_event ev"
    by (auto dest: process_documents_worker)
  have once: "count_list (Touched # Truncated # ?docs) Truncated = 1"
    using count_list_worker [OF worker] by simp
  have "out_txt_after previous (Touched # Truncated # ?docs) = out_txt_after (Some []) ?docs"
    by (cases previous) (simp_all add: out_txt_after_def)
  then have content: "out_txt_after previous (Touched # Truncated # ?docs)
           = Some (concat (map (\<lambda>(header, response). header @ response) (records ?docs)))"
    using out_txt_after_worker [OF worker, of "[]"] by simp
  let ?cli = "fst (cli_files endpoint a (glob_star_dot_star listing) \<lparr>calls = 0, checks = 0\<rparr>)"
  have cw: "\<forall>ev \<in> set ?cli. worker_event ev" by (auto dest: cli_files_worker)
  then have nt: "Truncated \<notin> set (main endpoint a listing)"
    by (auto simp: main_def)
  have "out_txt_after (Some old) (Touched # ?cli) = out_txt_after (Some old) ?cli"
    by (simp add: out_txt_after_def)
  then have keep: "out_txt_after (Some old) (main endpoint a listing)
           = Some (old @ concat (map (\<lambda>(header, response). header @ response)
                (records (main endpoint a listing))))"
    using out_txt_after_worker [OF cw, of old] by (simp add: main_def)
  from run worker once content nt keep show ?thesis by (simp only: run) simp
qed

text \<open>A run of each program on a directory with one small file, where \<^verbatim>\<open>out.txt\<close> held
  \<open>old\<close> before.\<close>

theorem output_file_at_start_witness:
  "py_int (max_words_var (example_form ''5'')) = Some 5
   \<and> out_txt_after (Some ''old'')
        (start_processing (answering ''R'') never_stopped (example_form ''5'')
           [text_file ''a.txt'' ''x''])
       = Some (file_header ''a.txt'' @ ''R'')
   \<and> count_list
        (start_processing (answering ''R'') never_stopped (example_form ''5'')
           [text_file ''a.txt'' ''x'']) Truncated = 1
   \<and> out_txt_after (Some ''old'')
        (main (answering ''R'') (example_args 5) [text_file ''a.txt'' ''x''])
       = Some (''old'' @ file_header ''a.txt'' @ ''R'')"
proof -
  have h1: "py_int (max_words_var (example_form ''5'')) = Some 5"
    by (simp add: example_form_fields example_py_int)
  have h2: "directory_var (example_form ''5'') \<noteq> []"
    and h3: "str_strip (prompt_text (example_form ''5'')) \<noteq> []"
    and h4: "model_var (example_form ''5'') \<noteq> []"
    and h5: "api_url_var (example_form ''5'') \<noteq> []"
    by (simp_all add: example_form_fields)
  have g: "max_words (gui_args (example_form ''5'') 5) = 5" by (simp add: gui_args_def)
  have c: "max_words (example_args 5) = 5" by (rule max_words_example)
  note t = output_file_at_start [OF h1 h2 h3 h4 h5, where endpoint = "answering ''R''"
      and stop_processing = never_stopped and listing = "[text_file ''a.txt'' ''x'']"
      and previous = "Some ''old''" and a = "example_args 5" and old = "''old''"]
  from t have "out_txt_after (Some ''old'')
        (start_processing (answering ''R'') never_stopped (example_form ''5'')
           [text_file ''a.txt'' ''x''])
       = Some (concat (map (\<lambda>(header, response). header @ response)
            (records (process_documents (answering ''R'') never_stopped
               (gui_args (example_form ''5'') 5) [text_file ''a.txt'' ''x'']))))"
    by blast
  then have a: "out_txt_after (Some ''old'')
        (start_processing (answering ''R'') never_stopped (example_form ''5'')
           [text_file ''a.txt'' ''x''])
       = Some (file_header ''a.txt'' @ ''R'')"
    by (simp add: example_gui_run [OF g] posted_def)
  from t have b: "count_list
        (start_processing (answering ''R'') never_stopped (example_form ''5'')
           [text_file ''a.txt'' ''x'']) Truncated = 1"
    by blast
  from t have "out_txt_after (Some ''old'')
        (main (answering ''R'') (example_args 5) [text_file ''a.txt'' ''x''])
       = Some (''old'' @ concat (map (\<lambda>(header, response). header @ response)
            (records (main (answering ''R'') (example_args 5) [text_file ''a.txt'' ''x'']))))"
    by blast
  then have d: "out_txt_after (Some ''old'')
        (main (answering ''R'') (example_args 5) [text_file ''a.txt'' ''x''])
       = Some (''old'' @ file_header ''a.txt'' @ ''R'')"
    by (simp add: example_cli_run [OF c] posted_def)
  from h1 a b d show ?thesis by blast
qed

text \<open>
  C2 as first stated speaks of every run. After a run of the command line program
  the earlier content is still there.
\<close>

theorem output_file_kept_counterexample:
  "out_txt_after (Some ''old'') (main (answering ''R'') (example_args 5) []) = Some ''old''
   \<and> Truncated \<notin> set (main (answering ''R'') (example_args 5) [])"
  by (simp add: main_def glob_star_dot_star_def out_txt_after_def)

text \<open>
  C3 (as amended). When the endpoint fails on a request in one of these ways:
  \<^verbatim>\<open>requests.post\<close> raises a connection error, the status is an error status (400..599), or
  the body is not JSON, then \<^verbatim>\<open>process_text_with_ollama\<close> returns the string
  "Error processing chunk: " followed by the message instead of raising. In the loop over
  the chunks that string is appended as the body of the record of the chunk and the loop
  goes on with the next chunk, in both drivers; for a document sent whole the string is
  the body of its record and no exception reaches the file boundary, so the loop over the
  directory goes on.
\<close>

theorem transport_failure_recorded:
  assumes "transport_failure (endpoint (calls p) (request_for a body))
             (req_url (request_for a body)) = Some msg"
  shows "infer endpoint a (calls p) body = Inr (''Error processing chunk: '' @ msg)
       \<and> cli_chunks endpoint a fname i (body # rest) p =
           (case cli_chunks endpoint a fname (Suc i) rest (called p) of
              (raised, evs, p') \<Rightarrow>
                (raised,
                 posted a body
                   # Appended (chunk_header fname i) (''Error processing chunk: '' @ msg) # evs,
                 p'))
       \<and> (\<not> stop_processing (checks p) \<longrightarrow>
            gui_chunks endpoint stop_processing a fname i (body # rest) p =
              (case gui_chunks endpoint stop_processing a fname (Suc i) rest
                      (called (checked p)) of
                 (raised, evs, p') \<Rightarrow>
                   (raised,
                    posted a body
                      # Appended (chunk_header fname i) (''Error processing chunk: '' @ msg) # evs,
                    p')))
       \<and> (int (length (str_split body)) \<le> max_words a \<longrightarrow>
            cli_send_text endpoint a fname body p =
              (None,
               [posted a body, Appended (file_header fname) (''Error processing chunk: '' @ msg)],
               called p)
            \<and> gui_send_text endpoint stop_processing a fname body p =
              cli_send_text endpoint a fname body p)"
proof -
  have r: "infer endpoint a (calls p) body = Inr (''Error processing chunk: '' @ msg)"
    using assms by (rule infer_transport_failure)
  show ?thesis
    using r by (simp add: cli_send_text_def gui_send_text_def checked_def)
qed

text \<open>An endpoint that answers with status 500.\<close>

theorem transport_failure_recorded_witness:
  "transport_failure (replying (Response 500 ''E'' JsonOther) 0 (request_for (example_args 1) ''x''))
       (req_url (request_for (example_args 1) ''x''))
     = Some ''500 Server Error: E for url: u/api/generate''
   \<and> infer (replying (Response 500 ''E'' JsonOther)) (example_args 1) 0 ''x''
       = Inr ''Error processing chunk: 500 Server Error: E for url: u/api/generate''
   \<and> cli_chunks (replying (Response 500 ''E'' JsonOther)) (example_args 1) ''a.txt'' 1
         [''x''] \<lparr>calls = 0, checks = 0\<rparr>
       = (None,
          [posted (example_args 1) ''x'',
           Appended (chunk_header ''a.txt'' 1)
             ''Error processing chunk: 500 Server Error: E for url: u/api/generate''],
          \<lparr>calls = 1, checks = 0\<rparr>)"
proof -
  let ?p = "\<lparr>calls = 0, checks = 0\<rparr>"
  have h: "transport_failure
        (replying (Response 500 ''E'' JsonOther) (calls ?p) (request_for (example_args 1) ''x''))
        (req_url (request_for (example_args 1) ''x''))
      = Some ''500 Server Error: E for url: u/api/generate''"
    by (simp add: transport_failure_def replying_def request_for_def build_request_def
        example_args_def str_nat.simps)
  from transport_failure_recorded [where endpoint = "replying (Response 500 ''E'' JsonOther)"
      and p = ?p and a = "example_args 1" and body = "''x''"
      and msg = "''500 Server Error: E for url: u/api/generate''"
      and fname = "''a.txt''" and i = 1 and rest = "[]" and stop_processing = never_stopped, OF h] h
  show ?thesis by (simp add: called_def)
qed

text \<open>
  C3 as first stated includes every malformed body. A body that is JSON but has no
  member \<^verbatim>\<open>response\<close> makes \<^verbatim>\<open>process_text_with_ollama\<close> raise \<^verbatim>\<open>KeyError\<close>: the loop over
  the chunks ends at the first chunk, and the run appends no record.
\<close>

theorem missing_response_counterexample:
  "infer (replying (Response 200 ''OK'' (JsonObject [(''error'', ''x'')]))) (example_args 1) 0 ''x''
     = Inl (KeyError ([CHR 0x27] @ ''response'' @ [CHR 0x27]))
   \<and> cli_chunks (replying (Response 200 ''OK'' (JsonObject [(''error'', ''x'')]))) (example_args 1)
         ''a.txt'' 1 [''x'', ''y''] \<lparr>calls = 0, checks = 0\<rparr>
       = (Some (KeyError ([CHR 0x27] @ ''response'' @ [CHR 0x27])),
          [posted (example_args 1) ''x''],
          \<lparr>calls = 1, checks = 0\<rparr>)
   \<and> records (main (replying (Response 200 ''OK'' (JsonObject [(''error'', ''x'')])))
         (example_args 1) [text_file ''a.txt'' ''x y'']) = []"
proof -
  let ?ep = "replying (Response 200 ''OK'' (JsonObject [(''error'', ''x'')]))"
  have i: "infer ?ep a n body = Inl (KeyError ([CHR 0x27] @ ''response'' @ [CHR 0x27]))"
    for a n body
    by (simp add: infer_def process_text_with_ollama_def replying_def raise_for_status_def
        response_json_response_def Let_def)
  have c: "cli_chunks ?ep (example_args 1) ''a.txt'' 1 [''x'', ''y''] p
       = (Some (KeyError ([CHR 0x27] @ ''response'' @ [CHR 0x27])),
          [posted (example_args 1) ''x''], called p)" for p
    by (simp add: i)
  have m: "records (main ?ep (example_args 1) [text_file ''a.txt'' ''x y'']) = []"
    by (simp add: main_def text_file_glob text_file_supported example_suffixes
        cli_process_file_def cli_file_body_def text_file_extract cli_send_text_def example_texts
        max_words_example i text_file_name posted_def)
  from i [of "example_args 1" 0 "''x''"] c [of "\<lparr>calls = 0, checks = 0\<rparr>"] m
  show ?thesis by (simp add: called_def)
qed

text \<open>
  C4. Let the flag be set from the \<open>k\<close>-th read on. At a read that is the \<open>k\<close>-th or a
  later one, the loop over the directory begins no file and the loop over the chunks
  dispatches no chunk: each only reports the interruption. When the flag is still clear at
  the read before a chunk and set afterwards, that chunk is posted, its record is
  appended, and nothing else is dispatched; when it becomes set while a file is being
  processed, the effects of that file stay and no further file begins. Whatever the flag
  does, a loop over the chunks that ends without an exception has appended one record for
  every request it posted.
\<close>

theorem cancellation_checkpoints:
  assumes "\<forall>n \<ge> k. stop_processing n"
  shows "(k \<le> checks p \<longrightarrow>
            gui_files endpoint stop_processing a es p =
              (if es = [] then ([], p) else ([Interrupted], checked p)))
       \<and> (k \<le> checks p \<longrightarrow>
            gui_chunks endpoint stop_processing a fname i chunks p =
              (if chunks = [] then (None, [], p) else (None, [Interrupted], checked p)))
       \<and> (\<not> stop_processing (checks p) \<and> k \<le> Suc (checks p)
              \<and> infer endpoint a (calls p) chunk = Inr r \<longrightarrow>
            gui_chunks endpoint stop_processing a fname i (chunk # rest) p =
              (None,
               posted a chunk # Appended (chunk_header fname i) r
                 # (if rest = [] then [] else [Interrupted]),
               if rest = [] then called (checked p) else checked (called (checked p))))
       \<and> (\<not> stop_processing (checks p) \<and> k \<le> Suc (checks p) \<and> is_supported_input e \<longrightarrow>
            fst (gui_files endpoint stop_processing a (e # es) p) =
              fst (gui_process_file endpoint stop_processing a e (checked p))
                @ (if es = [] then [] else [Interrupted]))
       \<and> (fst (gui_chunks endpoint stop_processing a fname i chunks p) = None \<longrightarrow>
            length (records (fst (snd (gui_chunks endpoint stop_processing a fname i chunks p))))
              = length (requests (fst (snd (gui_chunks endpoint stop_processing a fname i chunks p)))))"
proof -
  have files: "gui_files endpoint stop_processing a es p =
              (if es = [] then ([], p) else ([Interrupted], checked p))"
    if "k \<le> checks p"
    using that assms by (intro gui_files_stopped) simp
  have chunks: "gui_chunks endpoint stop_processing a fname i chunks p =
              (if chunks = [] then (None, [], p) else (None, [Interrupted], checked p))"
    if "k \<le> checks p"
    using that assms by (intro gui_chunks_stopped) simp
  have flight: "gui_chunks endpoint stop_processing a fname i (chunk # rest) p =
              (None,
               posted a chunk # Appended (chunk_header fname i) r
                 # (if rest = [] then [] else [Interrupted]),
               if rest = [] then called (checked p) else checked (called (checked p)))"
    if ns: "\<not> stop_processing (checks p)" and k: "k \<le> Suc (checks p)"
      and r: "infer endpoint a (calls p) chunk = Inr r"
  proof -
    have "stop_processing (checks (called (checked p)))"
      using k assms by (simp add: called_def checked_def)
    then have "gui_chunks endpoint stop_processing a fname (Suc i) rest (called (checked p)) =
        (if rest = [] then (None, [], called (checked p))
         else (None, [Interrupted], checked (called (checked p))))"
      by (rule gui_chunks_stopped)
    with ns r show ?thesis by simp
  qed
  have one_file: "fst (gui_files endpoint stop_processing a (e # es) p) =
              fst (gui_process_file endpoint stop_processing a e (checked p))
                @ (if es = [] then [] else [Interrupted])"
    if ns: "\<not> stop_processing (checks p)" and k: "k \<le> Suc (checks p)"
      and e: "is_supported_input e"
  proof -
    let ?q = "snd (gui_process_file endpoint stop_processing a e (checked p))"
    have "checks (checked p) \<le> checks ?q" by (rule gui_process_file_checks)
    with k have "k \<le> checks ?q" by (simp add: checked_def)
    with assms have "stop_processing (checks ?q)" by simp
    then have "gui_files endpoint stop_processing a es ?q =
        (if es = [] then ([], ?q) else ([Interrupted], checked ?q))"
      by (rule gui_files_stopped)
    with ns e show ?thesis by (simp add: case_prod_beta)
  qed
  from files chunks flight one_file
    gui_chunks_recorded [of endpoint stop_processing a fname i chunks p]
  show ?thesis by blast
qed

text \<open>The flag is set while the first of two chunks is in flight.\<close>

theorem cancellation_checkpoints_witness:
  "stopped_from 2 2 \<and> \<not> stopped_from 2 1
   \<and> gui_chunks (answering ''R'') (stopped_from 2) (example_args 1) ''a.txt'' 1 [''x'', ''y'']
         \<lparr>calls = 0, checks = 1\<rparr>
       = (None,
          [posted (example_args 1) ''x'', Appended (chunk_header ''a.txt'' 1) ''R'', Interrupted],
          \<lparr>calls = 1, checks = 3\<rparr>)
   \<and> gui_files (answering ''R'') (stopped_from 2) (example_args 1) [text_file ''b.txt'' ''z'']
         \<lparr>calls = 1, checks = 3\<rparr>
       = ([Interrupted], \<lparr>calls = 1, checks = 4\<rparr>)"
proof -
  have h: "\<forall>n \<ge> 2. stopped_from 2 n" by (simp add: stopped_from_def)
  have a: "\<not> stopped_from 2 (checks \<lparr>calls = 0, checks = 1\<rparr>)" by (simp add: stopped_from_def)
  have b: "(2::nat) \<le> Suc (checks \<lparr>calls = 0, checks = 1\<rparr>)" by simp
  have c: "infer (answering ''R'') (example_args 1) (calls \<lparr>calls = 0, checks = 1\<rparr>) ''x'' = Inr ''R''"
    by (rule infer_answering)
  have d: "(2::nat) \<le> checks \<lparr>calls = 1, checks = 3\<rparr>" by simp
  from cancellation_checkpoints [OF h, of "\<lparr>calls = 0, checks = 1\<rparr>" "answering ''R''"
      "example_args 1" "[]" "''a.txt''" 1 "[]" "''x''" "''R''" "[''y'']" "text_file ''b.txt'' ''z''"]
    a b c
  have flight: "gui_chunks (answering ''R'') (stopped_from 2) (example_args 1) ''a.txt'' 1 [''x'', ''y'']
         \<lparr>calls = 0, checks = 1\<rparr>
       = (None,
          [posted (example_args 1) ''x'', Appended (chunk_header ''a.txt'' 1) ''R'', Interrupted],
          \<lparr>calls = 1, checks = 3\<rparr>)"
    by (simp add: called_def checked_def)
  from cancellation_checkpoints [OF h, of "\<lparr>calls = 1, checks = 3\<rparr>" "answering ''R''"
      "example_args 1" "[text_file ''b.txt'' ''z'']"] d
  have nofile: "gui_files (answering ''R'') (stopped_from 2) (example_args 1) [text_file ''b.txt'' ''z'']
         \<lparr>calls = 1, checks = 3\<rparr>
       = ([Interrupted], \<lparr>calls = 1, checks = 4\<rparr>)"
    by (simp add: checked_def)
  from flight nofile show ?thesis by (simp add: stopped_from_def)
qed

text \<open>
  C5 (as amended). A chunk size that \<^verbatim>\<open>int\<close> does not accept and a missing required
  input are rejected before the run starts, by both programs. In the front end an error
  dialog is shown for such a chunk size and for an empty directory, prompt, model or URL;
  the command line program ends with the usage error of \<^verbatim>\<open>argparse\<close> when a string given
  for \<^verbatim>\<open>--max-words\<close> is not accepted by \<^verbatim>\<open>int\<close> or when there are not exactly three
  positional arguments. In all these cases nothing else happens: the output file is not
  touched and no file is processed. A chunk size that \<^verbatim>\<open>int\<close> accepts is taken as the limit
  whatever its sign, by both programs; the run starts, and with a limit of zero or less
  every word of a text is a chunk of its own.
\<close>

theorem configuration_checks:
  "(py_int (max_words_var form) = None \<longrightarrow>
      start_processing endpoint stop_processing form listing
        = [ErrorDialog ''Input Error'' ''Max Words must be an integer.''])
   \<and> (py_int (max_words_var form) = Some m
        \<and> (directory_var form = [] \<or> str_strip (prompt_text form) = []
             \<or> model_var form = [] \<or> api_url_var form = []) \<longrightarrow>
      start_processing endpoint stop_processing form listing
        = [ErrorDialog ''Input Error'' ''Please fill in all required fields.''])
   \<and> (py_int (max_words_var form) = Some m
        \<and> directory_var form \<noteq> [] \<and> str_strip (prompt_text form) \<noteq> []
        \<and> model_var form \<noteq> [] \<and> api_url_var form \<noteq> [] \<longrightarrow>
      start_processing endpoint stop_processing form listing
        = Touched # Truncated
            # process_documents endpoint stop_processing (gui_args form m) listing
      \<and> max_words (gui_args form m) = m)
   \<and> (length (positionals cl) \<noteq> 3 \<longrightarrow>
        main_with_arguments endpoint cl listing = [UsageError])
   \<and> (list_ex (\<lambda>s. py_int s = None) (max_words_given cl) \<longrightarrow>
        main_with_arguments endpoint cl listing = [UsageError])
   \<and> (positionals cl = [d, p, u] \<and> max_words_given cl = given @ [s]
        \<and> \<not> list_ex (\<lambda>s. py_int s = None) (max_words_given cl) \<and> py_int s = Some k
        \<and> \<not> list_ex (\<lambda>t. t = None) (temperature_given cl) \<longrightarrow>
        (\<exists>a. parse_args cl = Some a \<and> max_words a = k
              \<and> directory a = d \<and> prompt a = p \<and> url a = u
              \<and> main_with_arguments endpoint cl listing = main endpoint a listing))
   \<and> (limit \<le> 0 \<longrightarrow> chunk_text body limit = str_split body)"
proof -
  have gui: "(py_int (max_words_var form) = None \<longrightarrow>
      start_processing endpoint stop_processing form listing
        = [ErrorDialog ''Input Error'' ''Max Words must be an integer.''])
   \<and> (py_int (max_words_var form) = Some m
        \<and> (directory_var form = [] \<or> str_strip (prompt_text form) = []
             \<or> model_var form = [] \<or> api_url_var form = []) \<longrightarrow>
      start_processing endpoint stop_processing form listing
        = [ErrorDialog ''Input Error'' ''Please fill in all required fields.''])
   \<and> (py_int (max_words_var form) = Some m
        \<and> directory_var form \<noteq> [] \<and> str_strip (prompt_text form) \<noteq> []
        \<and> model_var form \<noteq> [] \<and> api_url_var form \<noteq> [] \<longrightarrow>
      start_processing endpoint stop_processing form listing
        = Touched # Truncated
            # process_documents endpoint stop_processing (gui_args form m) listing
      \<and> max_words (gui_args form m) = m)"
    by (auto simp: start_processing_def gui_args_def)
  have missing: "main_with_arguments endpoint cl listing = [UsageError]"
    if "length (positionals cl) \<noteq> 3"
    using parse_args_rejects(1) [OF that] by (simp add: main_with_arguments_def)
  have invalid: "main_with_arguments endpoint cl listing = [UsageError]"
    if "list_ex (\<lambda>s. py_int s = None) (max_words_given cl)"
    using parse_args_rejects(2) [OF that] by (simp add: main_with_arguments_def)
  have accepted: "\<exists>a. parse_args cl = Some a \<and> max_words a = k
              \<and> directory a = d \<and> prompt a = p \<and> url a = u
              \<and> main_with_arguments endpoint cl listing = main endpoint a listing"
    if "positionals cl = [d, p, u]" and "max_words_given cl = given @ [s]"
      and "\<not> list_ex (\<lambda>s. py_int s = None) (max_words_given cl)" and "py_int s = Some k"
      and "\<not> list_ex (\<lambda>t. t = None) (temperature_given cl)"
  proof -
    from parse_args_accepts [OF that] obtain a where
      "parse_args cl = Some a" "max_words a = k" "directory a = d" "prompt a = p" "url a = u"
      by blast
    then show ?thesis by (auto simp: main_with_arguments_def)
  qed
  have words: "chunk_text body limit = str_split body" if "limit \<le> 0"
    using that by (simp add: chunk_text_def chunk_loop_nonpositive)
  from gui missing invalid accepted words show ?thesis by blast
qed

text \<open>The entries \<open>abc\<close> and \<open>0\<close> for the chunk size, an empty model, and a command
  line with two positional arguments.\<close>

theorem configuration_checks_witness:
  "py_int (max_words_var (example_form ''abc'')) = None
   \<and> start_processing (answering ''R'') never_stopped (example_form ''abc'')
        [text_file ''a.txt'' ''x y'']
       = [ErrorDialog ''Input Error'' ''Max Words must be an integer.'']
   \<and> start_processing (answering ''R'') never_stopped ((example_form ''5'')\<lparr>model_var := []\<rparr>)
        [text_file ''a.txt'' ''x y'']
       = [ErrorDialog ''Input Error'' ''Please fill in all required fields.'']
   \<and> py_int (max_words_var (example_form ''0'')) = Some 0
   \<and> start_processing (answering ''R'') never_stopped (example_form ''0'')
        [text_file ''a.txt'' ''x y'']
       = Touched # Truncated
           # process_documents (answering ''R'') never_stopped
               (gui_args (example_form ''0'') 0) [text_file ''a.txt'' ''x y'']
   \<and> chunk_text ''x y'' 0 = [''x'', ''y'']
   \<and> main_with_arguments (answering ''R'') (example_command_line [''docs'', ''P''] [])
        [text_file ''a.txt'' ''x y''] = [UsageError]
   \<and> main_with_arguments (answering ''R'') (example_command_line [''docs'', ''P'', ''u''] [''abc''])
        [text_file ''a.txt'' ''x y''] = [UsageError]
   \<and> main_with_arguments (answering ''R'') (example_command_line [''docs'', ''P'', ''u''] [''0''])
        [text_file ''a.txt'' ''x y'']
       = main (answering ''R'') (example_args 0) [text_file ''a.txt'' ''x y'']"
proof -
  let ?l = "[text_file ''a.txt'' ''x y'']"
  have n: "py_int (max_words_var (example_form ''abc'')) = None"
    by (simp add: example_form_fields example_py_int)
  have z: "py_int (max_words_var (example_form ''0'')) = Some 0"
    by (simp add: example_form_fields example_py_int)
  have f: "py_int (max_words_var ((example_form ''5'')\<lparr>model_var := []\<rparr>)) = Some 5"
    by (simp add: example_form_fields example_py_int)
  from configuration_checks [where form = "example_form ''abc''" and endpoint = "answering ''R''"
      and stop_processing = never_stopped and listing = ?l] n
  have a: "start_processing (answering ''R'') never_stopped (example_form ''abc'') ?l
       = [ErrorDialog ''Input Error'' ''Max Words must be an integer.'']"
    by blast
  from configuration_checks [where form = "(example_form ''5'')\<lparr>model_var := []\<rparr>" and m = 5
      and endpoint = "answering ''R''" and stop_processing = never_stopped and listing = ?l] f
  have b: "start_processing (answering ''R'') never_stopped ((example_form ''5'')\<lparr>model_var := []\<rparr>) ?l
       = [ErrorDialog ''Input Error'' ''Please fill in all required fields.'']"
    by simp
  from configuration_checks [where form = "example_form ''0''" and m = 0
      and endpoint = "answering ''R''" and stop_processing = never_stopped and listing = ?l] z
  have c: "start_processing (answering ''R'') never_stopped (example_form ''0'') ?l
       = Touched # Truncated
           # process_documents (answering ''R'') never_stopped
               (gui_args (example_form ''0'') 0) ?l"
    by (simp add: example_form_fields)
  from configuration_checks [where limit = 0 and body = "''x y''"]
  have "chunk_text ''x y'' 0 = str_split ''x y''" by simp
  then have d: "chunk_text ''x y'' 0 = [''x'', ''y'']" by (simp add: example_texts)
  have "length (positionals (example_command_line [''docs'', ''P''] [])) \<noteq> 3"
    by (simp add: example_command_lines)
  with configuration_checks [where cl = "example_command_line [''docs'', ''P''] []"
      and endpoint = "answering ''R''" and listing = ?l]
  have e: "main_with_arguments (answering ''R'') (example_command_line [''docs'', ''P''] []) ?l
       = [UsageError]"
    by blast
  have "list_ex (\<lambda>s. py_int s = None)
          (max_words_given (example_command_line [''docs'', ''P'', ''u''] [''abc'']))"
    by (simp add: example_command_lines example_py_int)
  with configuration_checks [where cl = "example_command_line [''docs'', ''P'', ''u''] [''abc'']"
      and endpoint = "answering ''R''" and listing = ?l]
  have g: "main_with_arguments (answering ''R'')
        (example_command_line [''docs'', ''P'', ''u''] [''abc'']) ?l = [UsageError]"
    by blast
  let ?cl = "example_command_line [''docs'', ''P'', ''u''] [''0'']"
  have h: "positionals ?cl = [''docs'', ''P'', ''u'']" "max_words_given ?cl = [] @ [''0'']"
    "\<not> list_ex (\<lambda>s. py_int s = None) (max_words_given ?cl)" "py_int ''0'' = Some 0"
    "\<not> list_ex (\<lambda>t. t = None) (temperature_given ?cl)"
    by (simp_all add: example_command_lines example_py_int)
  from configuration_checks [where cl = ?cl and endpoint = "answering ''R''" and listing = ?l
      and d = "''docs''" and p = "''P''" and u = "''u''" and given = "[]" and s = "''0''" and k = 0] h
  obtain a0 where "parse_args ?cl = Some a0"
    and "main_with_arguments (answering ''R'') ?cl ?l = main (answering ''R'') a0 ?l"
    by blast
  then have i: "main_with_arguments (answering ''R'') ?cl ?l
       = main (answering ''R'') (example_args 0) ?l"
    by (simp add: example_command_lines)
  from n a b z c d e g i show ?thesis by blast
qed

text \<open>
  C5 as first stated has a limit of zero rejected. With the entry \<open>0\<close> the run starts, the
  file is processed and its two words are sent as two chunks.
\<close>

theorem nonpositive_limit_counterexample:
  "ProcessingFile ''a.txt''
     \<in> set (start_processing (answering ''R'') never_stopped (example_form ''0'')
              [text_file ''a.txt'' ''x y''])
   \<and> map fst (records (start_processing (answering ''R'') never_stopped (example_form ''0'')
              [text_file ''a.txt'' ''x y'']))
       = [chunk_header ''a.txt'' 1, chunk_header ''a.txt'' 2]"
proof -
  have g: "max_words (gui_args (example_form ''0'') 0) = 0" by (simp add: gui_args_def)
  show ?thesis
    by (simp add: start_processing_def example_form_fields example_py_int
        example_gui_run_zero [OF g] posted_def)
qed

text \<open>
  C6. Take a document whose extracted text is not empty. When the number of words
  of its normalized text is at most the limit (equal to it included), both drivers make one
  inference call with the whole normalized text, and the record of its response carries
  the header of the file without a chunk index. When the number of words exceeds the limit,
  both drivers run the loop over the chunks of \<open>chunk_text\<close>, starting with index 1; when
  every call is answered, the chunks are posted in order, the record of the \<open>j\<close>-th chunk
  (from 0) carries the index \<open>1 + j\<close>, and the front end with a flag that is never set
  does the same. The header of a file is never the header of a chunk.
\<close>

theorem whole_or_chunked:
  assumes "extract_text_from_file e = Inr raw" and "raw \<noteq> []"
  shows "(int (length (str_split (normalize_whitespace raw))) \<le> max_words a \<longrightarrow>
            cli_file_body endpoint a e p =
              (case infer endpoint a (calls p) (normalize_whitespace raw) of
                 Inl ex \<Rightarrow> (Some ex, [posted a (normalize_whitespace raw)], called p)
               | Inr response \<Rightarrow>
                   (None,
                    [posted a (normalize_whitespace raw),
                     Appended (file_header (entry_name e)) response],
                    called p))
            \<and> gui_file_body endpoint stop_processing a e p = cli_file_body endpoint a e p)
       \<and> (max_words a < int (length (str_split (normalize_whitespace raw))) \<longrightarrow>
            cli_file_body endpoint a e p =
              cli_chunks endpoint a (entry_name e) 1
                (chunk_text (normalize_whitespace raw) (max_words a)) p
            \<and> gui_file_body endpoint stop_processing a e p =
              gui_chunks endpoint stop_processing a (entry_name e) 1
                (chunk_text (normalize_whitespace raw) (max_words a)) p)
       \<and> (length rs = length chunks
            \<and> (\<forall>j < length chunks. infer endpoint a (calls p + j) (chunks ! j) = Inr (rs ! j)) \<longrightarrow>
            cli_chunks endpoint a fname 1 chunks p =
              (None,
               concat (map (\<lambda>j. [posted a (chunks ! j),
                                   Appended (chunk_header fname (1 + j)) (rs ! j)])
                         [0..<length chunks]),
               p\<lparr>calls := calls p + length chunks\<rparr>)
            \<and> ((\<forall>n. \<not> stop_processing n) \<longrightarrow>
                 fst (snd (gui_chunks endpoint stop_processing a fname 1 chunks p))
                   = fst (snd (cli_chunks endpoint a fname 1 chunks p))))
       \<and> file_header fname \<noteq> chunk_header fname i"
proof -
  have whole: "cli_file_body endpoint a e p =
              (case infer endpoint a (calls p) (normalize_whitespace raw) of
                 Inl ex \<Rightarrow> (Some ex, [posted a (normalize_whitespace raw)], called p)
               | Inr response \<Rightarrow>
                   (None,
                    [posted a (normalize_whitespace raw),
                     Appended (file_header (entry_name e)) response],
                    called p))
            \<and> gui_file_body endpoint stop_processing a e p = cli_file_body endpoint a e p"
    if "int (length (str_split (normalize_whitespace raw))) \<le> max_words a"
    using that assms
    by (simp add: cli_file_body_def gui_file_body_def cli_send_text_def gui_send_text_def)
  have chunked: "cli_file_body endpoint a e p =
              cli_chunks endpoint a (entry_name e) 1
                (chunk_text (normalize_whitespace raw) (max_words a)) p
            \<and> gui_file_body endpoint stop_processing a e p =
              gui_chunks endpoint stop_processing a (entry_name e) 1
                (chunk_text (normalize_whitespace raw) (max_words a)) p"
    if "max_words a < int (length (str_split (normalize_whitespace raw)))"
    using that assms
    by (simp add: cli_file_body_def gui_file_body_def cli_send_text_def gui_send_text_def)
  have order: "cli_chunks endpoint a fname 1 chunks p =
              (None,
               concat (map (\<lambda>j. [posted a (chunks ! j),
                                   Appended (chunk_header fname (1 + j)) (rs ! j)])
                         [0..<length chunks]),
               p\<lparr>calls := calls p + length chunks\<rparr>)"
    if "length rs = length chunks"
      and "\<forall>j < length chunks. infer endpoint a (calls p + j) (chunks ! j) = Inr (rs ! j)"
    using that by (rule cli_chunks_answered)
  have gui: "fst (snd (gui_chunks endpoint stop_processing a fname 1 chunks p))
                   = fst (snd (cli_chunks endpoint a fname 1 chunks p))"
    if "\<forall>n. \<not> stop_processing n"
    using gui_chunks_never_stopped [OF that refl] by simp
  from whole chunked order gui file_header_unlabelled [of fname i] show ?thesis by blast
qed

text \<open>A file of two words with the limits 2 and 1.\<close>

theorem whole_or_chunked_witness:
  "extract_text_from_file (text_file ''a.txt'' ''x  y'') = Inr ''x  y''
   \<and> int (length (str_split (normalize_whitespace ''x  y''))) = 2
   \<and> cli_file_body (answering ''R'') (example_args 2) (text_file ''a.txt'' ''x  y'')
         \<lparr>calls = 0, checks = 0\<rparr>
       = (None,
          [posted (example_args 2) ''x y'', Appended (file_header ''a.txt'') ''R''],
          \<lparr>calls = 1, checks = 0\<rparr>)
   \<and> cli_file_body (answering ''R'') (example_args 1) (text_file ''a.txt'' ''x  y'')
         \<lparr>calls = 0, checks = 0\<rparr>
       = (None,
          [posted (example_args 1) ''x'', Appended (chunk_header ''a.txt'' 1) ''R'',
           posted (example_args 1) ''y'', Appended (chunk_header ''a.txt'' 2) ''R''],
          \<lparr>calls = 2, checks = 0\<rparr>)"
proof -
  let ?e = "text_file ''a.txt'' ''x  y''"
  let ?p = "\<lparr>calls = 0, checks = 0\<rparr>"
  have h1: "extract_text_from_file ?e = Inr ''x  y''"
    by (simp add: text_file_extract example_suffixes)
  have h2: "''x  y'' \<noteq> []" by simp
  have wc: "int (length (str_split (normalize_whitespace ''x  y''))) = 2"
    by (simp add: example_texts)
  have whole: "cli_file_body (answering ''R'') (example_args 2) ?e ?p
       = (None, [posted (example_args 2) ''x y'', Appended (file_header ''a.txt'') ''R''],
          \<lparr>calls = 1, checks = 0\<rparr>)"
    using whole_or_chunked [OF h1 h2, of "example_args 2" "answering ''R''" ?p]
    by (simp add: wc max_words_example infer_answering example_texts text_file_name called_def)
  have h3: "length [''R'', ''R''] = length [''x'', ''y'']" by simp
  have h4: "\<forall>j < length [''x'', ''y'']. infer (answering ''R'') (example_args 1) (calls ?p + j)
              ([''x'', ''y''] ! j) = Inr ([''R'', ''R''] ! j)"
    by (simp add: infer_answering less_Suc_eq)
  have chunked: "cli_file_body (answering ''R'') (example_args 1) ?e ?p
       = (None,
          [posted (example_args 1) ''x'', Appended (chunk_header ''a.txt'' 1) ''R'',
           posted (example_args 1) ''y'', Appended (chunk_header ''a.txt'' 2) ''R''],
          \<lparr>calls = 2, checks = 0\<rparr>)"
    using whole_or_chunked [OF h1 h2, of "example_args 1" "answering ''R''" ?p
        _ "[''R'', ''R'']" "[''x'', ''y'']" "''a.txt''"] h3 h4
    by (simp add: wc max_words_example example_texts text_file_name upt_rec numeral_2_eq_2)
  from h1 wc whole chunked show ?thesis by simp
qed

text \<open>
  C7. The command line program does on a directory what it does on the entries of the
  directory that pass the test "the suffix in lower case is one of .txt, .pdf, .doc and
  .docx, and the name is not out.txt"; the files whose processing begins are exactly these
  entries, in the order of the listing; removing an entry that fails the test changes
  nothing. The same holds for the front end as long as the flag is never set.
\<close>

theorem enumeration_selects_supported:
  "main endpoint a listing = main endpoint a (filter is_supported_input listing)
   \<and> started_files (main endpoint a listing)
       = map entry_name (filter is_supported_input listing)
   \<and> (\<not> is_supported_input e \<longrightarrow>
         main endpoint a (earlier @ e # later) = main endpoint a (earlier @ later))
   \<and> ((\<forall>n. \<not> stop_processing n) \<longrightarrow>
         process_documents endpoint stop_processing a listing
           = process_documents endpoint stop_processing a (filter is_supported_input listing)
         \<and> started_files (process_documents endpoint stop_processing a listing)
             = map entry_name (filter is_supported_input listing))"
proof -
  have one: "main endpoint a (earlier @ e # later) = main endpoint a (earlier @ later)"
    if "\<not> is_supported_input e"
  proof -
    have "filter is_supported_input (earlier @ e # later)
            = filter is_supported_input (earlier @ later)"
      using that by simp
    then show ?thesis
      using main_filter [of endpoint a "earlier @ e # later"]
        main_filter [of endpoint a "earlier @ later"] by simp
  qed
  have gui: "process_documents endpoint stop_processing a listing
           = process_documents endpoint stop_processing a (filter is_supported_input listing)
         \<and> started_files (process_documents endpoint stop_processing a listing)
             = map entry_name (filter is_supported_input listing)"
    if ns: "\<forall>n. \<not> stop_processing n"
  proof -
    have "Touched # process_documents endpoint stop_processing a listing
            = Touched # process_documents endpoint stop_processing a
                          (filter is_supported_input listing)"
      by (simp only: process_documents_never_stopped [OF ns] main_filter)
    moreover have "started_files (Touched # process_documents endpoint stop_processing a listing)
            = map entry_name (filter is_supported_input listing)"
      by (simp only: process_documents_never_stopped [OF ns])
         (simp add: started_files_append main_started)
    ultimately show ?thesis by simp
  qed
  from one gui main_filter [of endpoint a listing, symmetric] main_started [of endpoint a listing]
  show ?thesis by blast
qed

text \<open>A directory with \<open>a.TXT\<close>, \<open>c.png\<close> and \<open>out.txt\<close>.\<close>

theorem enumeration_selects_supported_witness:
  "filter is_supported_input
     [text_file ''a.TXT'' ''x'', text_file ''c.png'' ''x'', text_file ''out.txt'' ''x'']
     = [text_file ''a.TXT'' ''x'']
   \<and> started_files (main (answering ''R'') (example_args 5)
        [text_file ''a.TXT'' ''x'', text_file ''c.png'' ''x'', text_file ''out.txt'' ''x''])
       = [''a.TXT'']
   \<and> main (answering ''R'') (example_args 5)
        [text_file ''a.TXT'' ''x'', text_file ''c.png'' ''x'', text_file ''out.txt'' ''x'']
       = main (answering ''R'') (example_args 5) [text_file ''a.TXT'' ''x'']
   \<and> started_files (process_documents (answering ''R'') never_stopped (example_args 5)
        [text_file ''a.TXT'' ''x'', text_file ''c.png'' ''x'', text_file ''out.txt'' ''x''])
       = [''a.TXT'']"
proof -
  let ?l = "[text_file ''a.TXT'' ''x'', text_file ''c.png'' ''x'', text_file ''out.txt'' ''x'']"
  have f: "filter is_supported_input ?l = [text_file ''a.TXT'' ''x'']"
    by (simp add: text_file_supported example_suffixes)
  have ns: "\<forall>n. \<not> never_stopped n" by (simp add: never_stopped_def)
  note sel = enumeration_selects_supported [of "answering ''R''" "example_args 5" ?l
      "text_file ''c.png'' ''x''" "[]" "[]" never_stopped]
  from sel have "main (answering ''R'') (example_args 5) ?l
      = main (answering ''R'') (example_args 5) (filter is_supported_input ?l)"
    by blast
  then have m: "main (answering ''R'') (example_args 5) ?l
      = main (answering ''R'') (example_args 5) [text_file ''a.TXT'' ''x'']"
    by (simp only: f)
  from sel have "started_files (main (answering ''R'') (example_args 5) ?l)
      = map entry_name (filter is_supported_input ?l)"
    by blast
  then have s: "started_files (main (answering ''R'') (example_args 5) ?l) = [''a.TXT'']"
    by (simp only: f) (simp add: text_file_name)
  from sel ns have "started_files (process_documents (answering ''R'') never_stopped
        (example_args 5) ?l) = map entry_name (filter is_supported_input ?l)"
    by blast
  then have g: "started_files (process_documents (answering ''R'') never_stopped
        (example_args 5) ?l) = [''a.TXT'']"
    by (simp only: f) (simp add: text_file_name)
  from f m s g show ?thesis by blast
qed

text \<open>
  C8. The normalized text consists of the words of the raw text separated by single
  spaces. Its only whitespace characters are spaces, no two whitespace characters are
  adjacent, it neither begins nor ends with whitespace, it contains no newline, it has the
  words of the raw text, and normalizing it again changes nothing. Both drivers normalize
  the extracted text once, after the test for an empty extraction, and count words and cut
  chunks on the normalized text only.
\<close>

theorem normalization_collapses_whitespace:
  "normalize_whitespace raw = str_join '' '' (str_split raw)
   \<and> (\<forall>c \<in> set (normalize_whitespace raw). isspace c \<longrightarrow> c = CHR '' '')
   \<and> successively (\<lambda>a b. \<not> (isspace a \<and> isspace b)) (normalize_whitespace raw)
   \<and> (normalize_whitespace raw \<noteq> [] \<longrightarrow>
        \<not> isspace (hd (normalize_whitespace raw)) \<and> \<not> isspace (last (normalize_whitespace raw)))
   \<and> CHR 0x0A \<notin> set (normalize_whitespace raw)
   \<and> str_split (normalize_whitespace raw) = str_split raw
   \<and> normalize_whitespace (normalize_whitespace raw) = normalize_whitespace raw
   \<and> (extract_text_from_file e = Inr raw \<and> raw \<noteq> [] \<longrightarrow>
        cli_file_body endpoint a e p
          = cli_send_text endpoint a (entry_name e) (normalize_whitespace raw) p
        \<and> gui_file_body endpoint stop_processing a e p
          = gui_send_text endpoint stop_processing a (entry_name e) (normalize_whitespace raw) p)"
proof -
  have "extract_text_from_file e = Inr raw \<and> raw \<noteq> [] \<longrightarrow>
        cli_file_body endpoint a e p
          = cli_send_text endpoint a (entry_name e) (normalize_whitespace raw) p
        \<and> gui_file_body endpoint stop_processing a e p
          = gui_send_text endpoint stop_processing a (entry_name e) (normalize_whitespace raw) p"
    by (simp add: cli_file_body_def gui_file_body_def)
  with normalize_whitespace_shape [of raw] show ?thesis by blast
qed

text \<open>A text with a leading space, two newlines between its words and trailing spaces.\<close>

theorem normalization_collapses_whitespace_witness:
  "normalize_whitespace ('' x'' @ newline @ newline @ ''y  '') = ''x y''
   \<and> CHR 0x0A \<notin> set (normalize_whitespace ('' x'' @ newline @ newline @ ''y  ''))
   \<and> str_split (normalize_whitespace ('' x'' @ newline @ newline @ ''y  '')) = [''x'', ''y'']
   \<and> normalize_whitespace (normalize_whitespace ('' x'' @ newline @ newline @ ''y  '')) = ''x y''
   \<and> cli_file_body (answering ''R'') (example_args 5)
        (text_file ''a.txt'' ('' x'' @ newline @ newline @ ''y  '')) \<lparr>calls = 0, checks = 0\<rparr>
       = cli_send_text (answering ''R'') (example_args 5) ''a.txt'' ''x y'' \<lparr>calls = 0, checks = 0\<rparr>"
proof -
  let ?raw = "'' x'' @ newline @ newline @ ''y  ''"
  have s: "str_split ?raw = [''x'', ''y'']"
    by (simp add: newline_def str_split.simps isspace_def)
  have h1: "extract_text_from_file (text_file ''a.txt'' ?raw) = Inr ?raw"
    by (simp add: text_file_extract example_suffixes)
  have h2: "?raw \<noteq> []" by simp
  note t = normalization_collapses_whitespace [where raw = ?raw and e = "text_file ''a.txt'' ?raw"
      and endpoint = "answering ''R''" and a = "example_args 5" and p = "\<lparr>calls = 0, checks = 0\<rparr>"
      and stop_processing = never_stopped]
  from t have "normalize_whitespace ?raw = str_join '' '' (str_split ?raw)" by blast
  then have n: "normalize_whitespace ?raw = ''x y''" by (simp only: s) simp
  from t have nl: "CHR 0x0A \<notin> set (normalize_whitespace ?raw)" by blast
  from t have "str_split (normalize_whitespace ?raw) = str_split ?raw" by blast
  then have sp: "str_split (normalize_whitespace ?raw) = [''x'', ''y'']" by (simp only: s)
  from t have "normalize_whitespace (normalize_whitespace ?raw) = normalize_whitespace ?raw"
    by blast
  then have idem: "normalize_whitespace (normalize_whitespace ?raw) = ''x y''"
    by (simp only: n)
  from t h1 h2 have "cli_file_body (answering ''R'') (example_args 5) (text_file ''a.txt'' ?raw)
        \<lparr>calls = 0, checks = 0\<rparr>
      = cli_send_text (answering ''R'') (example_args 5) (entry_name (text_file ''a.txt'' ?raw))
          (normalize_whitespace ?raw) \<lparr>calls = 0, checks = 0\<rparr>"
    by blast
  then have body: "cli_file_body (answering ''R'') (example_args 5) (text_file ''a.txt'' ?raw)
        \<lparr>calls = 0, checks = 0\<rparr>
      = cli_send_text (answering ''R'') (example_args 5) ''a.txt'' ''x y'' \<lparr>calls = 0, checks = 0\<rparr>"
    by (simp only: n text_file_name)
  from n nl sp idem body show ?thesis by blast
qed

text \<open>
  C9. Calling \<^verbatim>\<open>next\<close> on a fresh generator of \<^verbatim>\<open>chunk_text\<close> until it is exhausted gives
  the list \<open>chunk_text text limit\<close>, which depends on the text and the limit only. So two
  invocations on equal texts and equal limits give lists of the same length with the same
  chunks in the same order.
\<close>

theorem chunk_text_deterministic:
  "list_of_generator limit (Running (str_split text) [] 0) = chunk_text text limit
   \<and> (text1 = text2 \<and> limit1 = limit2 \<longrightarrow>
        chunk_text text1 limit1 = chunk_text text2 limit2
        \<and> length (chunk_text text1 limit1) = length (chunk_text text2 limit2)
        \<and> list_of_generator limit1 (Running (str_split text1) [] 0)
            = list_of_generator limit2 (Running (str_split text2) [] 0))"
  by (simp add: list_of_generator_loop chunk_text_def)

text \<open>Three words and the limit 2.\<close>

theorem chunk_text_deterministic_witness:
  "list_of_generator 2 (Running (str_split ''a b c'') [] 0) = [''a b'', ''c'']
   \<and> chunk_text ''a b c'' 2 = [''a b'', ''c'']"
proof -
  have c: "chunk_text ''a b c'' 2 = [''a b'', ''c'']"
    by (simp add: chunk_text_def str_split.simps isspace_def)
  with chunk_text_deterministic [of 2 "''a b c''" "''a b c''" "''a b c''" 2 2]
  show ?thesis by simp
qed

text \<open>
  C10 (as amended). Take a document whose extracted text is not empty and consists of
  whitespace only. The test for an empty extraction does not skip it: its normalized text
  is empty and has no words. With a limit of at least zero both drivers make one inference
  call whose text is empty (the prompt sent ends with "Text: "), and when the call
  returns, one record with the header of the file is appended. With a negative limit,
  which both programs accept, the document goes to the loop over the chunks, and the empty
  text has no chunk: nothing is sent and no record is appended.
\<close>

theorem whitespace_only_document:
  assumes "extract_text_from_file e = Inr raw" and "raw \<noteq> []"
    and "\<forall>c \<in> set raw. isspace c"
  shows "normalize_whitespace raw = []
       \<and> length (str_split (normalize_whitespace raw)) = 0
       \<and> Skipped (entry_name e) \<notin> set (fst (snd (cli_file_body endpoint a e p)))
       \<and> Skipped (entry_name e) \<notin> set (fst (snd (gui_file_body endpoint stop_processing a e p)))
       \<and> (0 \<le> max_words a \<longrightarrow>
            cli_file_body endpoint a e p =
              (case infer endpoint a (calls p) [] of
                 Inl ex \<Rightarrow> (Some ex, [posted a []], called p)
               | Inr response \<Rightarrow>
                   (None, [posted a [], Appended (file_header (entry_name e)) response], called p))
            \<and> gui_file_body endpoint stop_processing a e p = cli_file_body endpoint a e p
            \<and> requests (fst (snd (cli_file_body endpoint a e p))) = [request_for a []])
       \<and> (max_words a < 0 \<longrightarrow>
            cli_file_body endpoint a e p = (None, [], p)
            \<and> gui_file_body endpoint stop_processing a e p = (None, [], p))
       \<and> req_prompt (request_for a []) = prompt a @ newline @ newline @ ''Text: ''"
proof -
  have n: "normalize_whitespace raw = []"
    using assms(3) by (simp add: normalize_whitespace_join_split str_split_whitespace)
  have s: "length (str_split (normalize_whitespace raw)) = 0"
    by (simp add: n str_split_Nil)
  have c: "chunk_text [] (max_words a) = []"
    by (simp add: chunk_text_def str_split_Nil)
  have nonneg: "cli_file_body endpoint a e p =
              (case infer endpoint a (calls p) [] of
                 Inl ex \<Rightarrow> (Some ex, [posted a []], called p)
               | Inr response \<Rightarrow>
                   (None, [posted a [], Appended (file_header (entry_name e)) response], called p))
            \<and> gui_file_body endpoint stop_processing a e p = cli_file_body endpoint a e p
            \<and> requests (fst (snd (cli_file_body endpoint a e p))) = [request_for a []]"
    if "0 \<le> max_words a"
    using that assms(1,2)
    by (simp add: cli_file_body_def gui_file_body_def cli_send_text_def gui_send_text_def n
        str_split_Nil posted_def split: sum.splits)
  have neg: "cli_file_body endpoint a e p = (None, [], p)
            \<and> gui_file_body endpoint stop_processing a e p = (None, [], p)"
    if "max_words a < 0"
    using that assms(1,2)
    by (simp add: cli_file_body_def gui_file_body_def cli_send_text_def gui_send_text_def n
        str_split_Nil c)
  have sk: "Skipped (entry_name e) \<notin> set (fst (snd (cli_file_body endpoint a e p)))"
  proof (cases "0 \<le> max_words a")
    case True
    from nonneg [OF True] show ?thesis by (simp add: posted_def split: sum.splits)
  next
    case False
    then have "max_words a < 0" by simp
    from neg [OF this] show ?thesis by simp
  qed
  have skg: "Skipped (entry_name e) \<notin> set (fst (snd (gui_file_body endpoint stop_processing a e p)))"
  proof (cases "0 \<le> max_words a")
    case True
    from nonneg [OF True] show ?thesis by (simp add: posted_def split: sum.splits)
  next
    case False
    then have "max_words a < 0" by simp
    from neg [OF this] show ?thesis by simp
  qed
  have pr: "req_prompt (request_for a []) = prompt a @ newline @ newline @ ''Text: ''"
    by (simp add: request_for_def build_request_def)
  from n s sk skg nonneg neg pr show ?thesis by blast
qed

text \<open>A text file that holds two spaces, with the limits 3000 and -1.\<close>

theorem whitespace_only_document_witness:
  "extract_text_from_file (text_file ''b.txt'' ''  '') = Inr ''  ''
   \<and> normalize_whitespace ''  '' = []
   \<and> cli_file_body (answering ''R'') (example_args 3000) (text_file ''b.txt'' ''  '')
         \<lparr>calls = 0, checks = 0\<rparr>
       = (None,
          [posted (example_args 3000) [], Appended (file_header ''b.txt'') ''R''],
          \<lparr>calls = 1, checks = 0\<rparr>)
   \<and> gui_file_body (answering ''R'') never_stopped (example_args 3000) (text_file ''b.txt'' ''  '')
         \<lparr>calls = 0, checks = 0\<rparr>
       = (None,
          [posted (example_args 3000) [], Appended (file_header ''b.txt'') ''R''],
          \<lparr>calls = 1, checks = 0\<rparr>)
   \<and> gui_file_body (answering ''R'') never_stopped (example_args (- 1)) (text_file ''b.txt'' ''  '')
         \<lparr>calls = 0, checks = 0\<rparr>
       = (None, [], \<lparr>calls = 0, checks = 0\<rparr>)"
proof -
  let ?e = "text_file ''b.txt'' ''  ''"
  let ?p = "\<lparr>calls = 0, checks = 0\<rparr>"
  have h1: "extract_text_from_file ?e = Inr ''  ''"
    by (simp add: text_file_extract example_suffixes)
  have h2: "''  '' \<noteq> []" by simp
  have h3: "\<forall>c \<in> set ''  ''. isspace c" by (simp add: isspace_def)
  have h4: "0 \<le> max_words (example_args 3000)" by (simp add: max_words_example)
  have h5: "max_words (example_args (- 1)) < 0" by (simp add: max_words_example)
  note t = whitespace_only_document [OF h1 h2 h3, where endpoint = "answering ''R''"
      and p = ?p and stop_processing = never_stopped]
  from t [where a = "example_args 3000"] have n: "normalize_whitespace ''  '' = []" by blast
  from t [where a = "example_args 3000"] h4
  have "cli_file_body (answering ''R'') (example_args 3000) ?e ?p =
      (case infer (answering ''R'') (example_args 3000) (calls ?p) [] of
         Inl ex \<Rightarrow> (Some ex, [posted (example_args 3000) []], called ?p)
       | Inr response \<Rightarrow>
           (None, [posted (example_args 3000) [], Appended (file_header (entry_name ?e)) response],
            called ?p))
    \<and> gui_file_body (answering ''R'') never_stopped (example_args 3000) ?e ?p
        = cli_file_body (answering ''R'') (example_args 3000) ?e ?p"
    by blast
  then have b: "cli_file_body (answering ''R'') (example_args 3000) ?e ?p
       = (None, [posted (example_args 3000) [], Appended (file_header ''b.txt'') ''R''],
          \<lparr>calls = 1, checks = 0\<rparr>)
     \<and> gui_file_body (answering ''R'') never_stopped (example_args 3000) ?e ?p
       = (None, [posted (example_args 3000) [], Appended (file_header ''b.txt'') ''R''],
          \<lparr>calls = 1, checks = 0\<rparr>)"
    by (simp add: infer_answering text_file_name called_def)
  from t [where a = "example_args (- 1)"] h5
  have g: "gui_file_body (answering ''R'') never_stopped (example_args (- 1)) ?e ?p = (None, [], ?p)"
    by blast
  from h1 n b g show ?thesis by blast
qed

text \<open>
  C10 as first stated has no condition on the limit. With the limit -1 the command
  line program begins the file and then neither sends a request nor appends a record.
\<close>

theorem negative_limit_counterexample:
  "extract_text_from_file (text_file ''b.txt'' ''  '') = Inr ''  ''
   \<and> cli_file_body (answering ''R'') (example_args (- 1)) (text_file ''b.txt'' ''  '')
         \<lparr>calls = 0, checks = 0\<rparr>
       = (None, [], \<lparr>calls = 0, checks = 0\<rparr>)
   \<and> main (answering ''R'') (example_args (- 1)) [text_file ''b.txt'' ''  '']
       = [Touched, ProcessingFile ''b.txt'']"
proof -
  have n: "normalize_whitespace ''  '' = []"
    by (simp add: normalize_whitespace_join_split str_split.simps isspace_def)
  have c: "chunk_text [] (- 1) = []" by (simp add: chunk_text_def str_split_Nil)
  have h1: "extract_text_from_file (text_file ''b.txt'' ''  '') = Inr ''  ''"
    by (simp add: text_file_extract example_suffixes)
  have b: "cli_file_body (answering ''R'') (example_args (- 1)) (text_file ''b.txt'' ''  '') p
       = (None, [], p)" for p
    by (simp add: cli_file_body_def h1 n cli_send_text_def str_split_Nil max_words_example c)
  have g: "glob_star_dot_star [text_file ''b.txt'' ''  ''] = [text_file ''b.txt'' ''  '']"
    by (simp add: glob_star_dot_star_def text_file_name)
  have m: "main (answering ''R'') (example_args (- 1)) [text_file ''b.txt'' ''  '']
       = [Touched, ProcessingFile ''b.txt'']"
    by (simp add: main_def g text_file_supported example_suffixes cli_process_file_def b
        text_file_name)
  from h1 b m show ?thesis by simp
qed

end
